theory Spec2Isabelle
  imports Main "HOL-Library.Word" "HOL-Library.Multiset"
begin

unbundle bit_operations_syntax

section \<open>Data model\<close>

text \<open>
  A shallow embedding of the software RAID engine: the file-backed disk, the XOR
  primitive, the three level engines and the array facade.

  Integers. Go's \<open>int\<close> is 64 bits wide. The two constructors multiply sizes that
  the caller chooses, and there the product wraps around (\<open>mul_int\<close>); the sizes
  themselves, and the indices and offsets of blocks in range, are unbounded: on a
  disk whose file holds all its blocks they stay below the size of the file. A
  parameter that the code tests for
  \<open>< 0\<close> (a logical block ID at the facade, a block ID at the disk, a disk index at
  the rebuild) is an \<open>int\<close>; sizes that the constructors have checked to be positive,
  and indices computed from them, are \<open>nat\<close>. On non-negative operands Go's \<open>/\<close> and
  \<open>%\<close> are \<open>div\<close> and \<open>mod\<close>. The two counters are \<open>uint64\<close> and wrap.

  Effects. Every operation takes the state it works on and returns its result paired
  with the state it leaves, also when the result is an error: a failed operation may
  have written already. Console output (\<open>fmt.Printf\<close>) is not modelled. Locks are not
  modelled: every operation runs to completion on its own; the one place where the
  order of concurrent events reaches the result, the result channel of the mirrored
  write, takes that order as a parameter.
\<close>

type_synonym byte = "8 word"
type_synonym block = "byte list"

text \<open>
  The errors. The code builds them with \<open>fmt.Errorf\<close>; one constructor stands for each
  message, carrying what the message carries (a wrapped error where it has \<open>%w\<close>).
\<close>

datatype error =
    DiskFailed                        \<comment> \<open>"disk %s is failed"\<close>
  | BlockOutOfBounds int nat          \<comment> \<open>"block ID %d out of bounds [0, %d)"\<close>
  | DataSizeMismatch nat nat          \<comment> \<open>"data size %d does not match block size %d"\<close>
  | ReadError int                     \<comment> \<open>"read error on %s block %d: %w" (io.EOF)\<close>
  | OutOfBounds int nat               \<comment> \<open>"logical block %d out of bounds [0, %d)"\<close>
  | BadBufferSize nat                 \<comment> \<open>"data size must match block size %d"\<close>
  | UnsupportedLevel int              \<comment> \<open>"unsupported RAID level: %d"\<close>
  | UnsupportedForLevel               \<comment> \<open>"disk rebuild only supported for RAID 5"\<close>
  | AllReplicasFailed "error option"  \<comment> \<open>"all disks failed to write: %w"\<close>
  | DegradedWrite nat nat "nat list"  \<comment> \<open>"degraded write: %d/%d disks succeeded, failed disks: %v"\<close>
  | NoReplicaAvailable "error option" \<comment> \<open>"failed to read from any disk: %w"\<close>
  | ParityCalcFailed nat error        \<comment> \<open>"cannot calculate parity: failed to read disk %d: %w"\<close>
  | ParityWriteFailed nat error       \<comment> \<open>"failed to write parity to disk %d: %w"\<close>
  | DataWriteFailed nat error         \<comment> \<open>"failed to write data to disk %d: %w"\<close>
  | ParityDiskFailed nat              \<comment> \<open>"cannot reconstruct: parity disk %d failed"\<close>
  | ParityReadFailed nat error        \<comment> \<open>"failed to read parity from disk %d: %w"\<close>
  | MultipleFailures                  \<comment> \<open>"cannot reconstruct: multiple disk failures"\<close>
  | ReconstructReadFailed nat error   \<comment> \<open>"failed to read disk %d for reconstruction: %w"\<close>
  | RebuildReadFailed nat error       \<comment> \<open>"failed to read disk %d: %w" (rebuildParityBlock)\<close>
  | InvalidDiskIndex int              \<comment> \<open>"invalid disk index %d"\<close>
  | NotMarkedFailed int               \<comment> \<open>"disk %d is not marked as failed"\<close>
  | RebuildFailedAt nat error         \<comment> \<open>"rebuild failed at stripe %d: %w"\<close>
  | RebuildReconstructFailed nat error \<comment> \<open>"rebuild failed reconstructing stripe %d: %w"\<close>
  | RebuildWriteFailed nat error      \<comment> \<open>"rebuild failed writing stripe %d: %w"\<close>
  | ConfigTooFewDisks                 \<comment> \<open>"RAID requires at least 2 disks"\<close>
  | ConfigRaid5TooFewDisks            \<comment> \<open>"RAID 5 requires at least 3 disks"\<close>
  | ConfigBlockSize                   \<comment> \<open>"block size must be positive"\<close>
  | ConfigBlocksPerDisk               \<comment> \<open>"blocks per disk must be positive"\<close>

subsection \<open>The backing file\<close>

text \<open>
  The backing file is its contents, a list of bytes. \<open>ReadAt\<close> is \<open>os.File.ReadAt\<close>:
  it returns the \<open>n\<close> bytes at \<open>off\<close>, or an error (io.EOF) when the file ends before
  \<open>off + n\<close>; the error comes with every short read, so the \<open>n != blockSize\<close> test
  that follows it in the code never fires on its own. \<open>WriteAt\<close> is
  \<open>os.File.WriteAt\<close>: it overwrites the bytes at \<open>off\<close>, extending the file (with
  zeros up to \<open>off\<close>) when it is shorter. Host failures other than the end of the
  file (a failing device, a failing fsync) are not modelled.
\<close>

definition ReadAt :: "byte list \<Rightarrow> nat \<Rightarrow> nat \<Rightarrow> block option" where
  "ReadAt f n off = (if off + n \<le> length f then Some (take n (drop off f)) else None)"

definition WriteAt :: "byte list \<Rightarrow> block \<Rightarrow> nat \<Rightarrow> byte list" where
  "WriteAt f dat off =
     take off f @ replicate (off - length f) 0 @ dat @ drop (off + length dat) f"

subsection \<open>Disk\<close>

record Disk =
  fileData :: "byte list"
  path :: string
  blockSize :: nat
  numBlocks :: nat
  failed :: bool
  writeCount :: "64 word"
  readCount :: "64 word"

text \<open>Go's \<open>*\<close> on two \<open>int\<close>: the product in 64 bits, two's complement.\<close>

definition mul_int :: "int \<Rightarrow> int \<Rightarrow> int" where
  "mul_int x y = sint (word_of_int x * word_of_int y :: 64 word)"

text \<open>
  \<open>NewDisk\<close>: the first argument is what the file at \<open>path\<close> holds when it is opened
  (empty when the file is created). A file shorter than \<open>requiredSize\<close> is extended
  with zeros; a longer one is kept. \<open>requiredSize\<close> is the product as the code
  computes it: where it wraps around, the file is left shorter than the disk.
\<close>

datatype disk_error = BadBlockSize int | BadNumBlocks int

definition NewDisk :: "byte list \<Rightarrow> string \<Rightarrow> int \<Rightarrow> int \<Rightarrow> disk_error + Disk" where
  "NewDisk existing p bs nb =
     (if bs \<le> 0 then Inl (BadBlockSize bs)
      else if nb \<le> 0 then Inl (BadNumBlocks nb)
      else let requiredSize = mul_int bs nb in
        Inr \<lparr> fileData = (if int (length existing) < requiredSize
                       then existing @ replicate (nat requiredSize - length existing) 0
                       else existing),
              path = p, blockSize = nat bs, numBlocks = nat nb, failed = False,
              writeCount = 0, readCount = 0 \<rparr>)"

definition Disk_ReadBlock :: "Disk \<Rightarrow> int \<Rightarrow> (error + block) \<times> Disk" where
  "Disk_ReadBlock d blockID =
     (if failed d then (Inl DiskFailed, d)
      else if blockID < 0 \<or> blockID \<ge> int (numBlocks d)
        then (Inl (BlockOutOfBounds blockID (numBlocks d)), d)
      else (case ReadAt (fileData d) (blockSize d) (nat blockID * blockSize d) of
              None \<Rightarrow> (Inl (ReadError blockID), d)
            | Some dat \<Rightarrow> (Inr dat, d\<lparr>readCount := readCount d + 1\<rparr>)))"

definition Disk_WriteBlock :: "Disk \<Rightarrow> int \<Rightarrow> block \<Rightarrow> error option \<times> Disk" where
  "Disk_WriteBlock d blockID dat =
     (if failed d then (Some DiskFailed, d)
      else if blockID < 0 \<or> blockID \<ge> int (numBlocks d)
        then (Some (BlockOutOfBounds blockID (numBlocks d)), d)
      else if length dat \<noteq> blockSize d
        then (Some (DataSizeMismatch (length dat) (blockSize d)), d)
      else (None, d\<lparr>fileData := WriteAt (fileData d) dat (nat blockID * blockSize d),
                     writeCount := writeCount d + 1\<rparr>))"

definition SetFailed :: "Disk \<Rightarrow> bool \<Rightarrow> Disk" where
  "SetFailed d f = d\<lparr>failed := f\<rparr>"

definition IsFailed :: "Disk \<Rightarrow> bool" where
  "IsFailed d = failed d"

definition Capacity_disk :: "Disk \<Rightarrow> nat" where
  "Capacity_disk d = numBlocks d"

subsection \<open>The XOR primitive\<close>

text \<open>\<open>xorBytes dst src\<close>: the contents of \<open>dst\<close> after the call.\<close>

fun xorBytes :: "block \<Rightarrow> block \<Rightarrow> block" where
  "xorBytes [] src = []"
| "xorBytes dst [] = dst"
| "xorBytes (x # dst) (y # src) = (x XOR y) # xorBytes dst src"


subsection \<open>Array\<close>

text \<open>
  \<open>RAIDLevel\<close> is an integer in the code, with three named values; any other value
  reaches the \<open>default\<close> branch of each dispatch.
\<close>

abbreviation RAID0 :: int where "RAID0 \<equiv> 0"
abbreviation RAID1 :: int where "RAID1 \<equiv> 1"
abbreviation RAID5 :: int where "RAID5 \<equiv> 5"

record RAIDArray =
  level :: int
  disks :: "Disk list"
  arrayBlockSize :: nat
  numDisks :: nat
  capacity :: nat

record RAIDConfig =
  Level :: int
  DiskPaths :: "string list"
  BlockSize :: int
  BlocksPerDisk :: int

text \<open>
  The engines reach the disks through the array, by index: \<open>disks_ReadBlock a i b\<close> is
  \<open>r.array.disks[i].ReadBlock(b)\<close>, and the array it returns holds the disk as the
  call leaves it. Every index the engines compute is below \<open>numDisks\<close>, which is the
  length of \<open>disks\<close> in every array that \<open>NewRAIDArray\<close> builds.
\<close>

definition disks_ReadBlock :: "RAIDArray \<Rightarrow> nat \<Rightarrow> nat \<Rightarrow> (error + block) \<times> RAIDArray" where
  "disks_ReadBlock a i b =
     (case Disk_ReadBlock (disks a ! i) (int b) of
        (r, d') \<Rightarrow> (r, a\<lparr>disks := (disks a)[i := d']\<rparr>))"

definition disks_WriteBlock :: "RAIDArray \<Rightarrow> nat \<Rightarrow> nat \<Rightarrow> block \<Rightarrow> error option \<times> RAIDArray" where
  "disks_WriteBlock a i b dat =
     (case Disk_WriteBlock (disks a ! i) (int b) dat of
        (r, d') \<Rightarrow> (r, a\<lparr>disks := (disks a)[i := d']\<rparr>))"

definition disks_SetFailed :: "RAIDArray \<Rightarrow> nat \<Rightarrow> bool \<Rightarrow> RAIDArray" where
  "disks_SetFailed a i f = a\<lparr>disks := (disks a)[i := SetFailed (disks a ! i) f]\<rparr>"

text \<open>
  \<open>NewRAIDArray\<close>: \<open>fs\<close> gives what each path holds when the array is created (the
  empty list for a file that does not exist yet). After the checks on the
  configuration no \<open>NewDisk\<close> can fail, so the branch that closes the disks opened so
  far is the \<open>Inl\<close> case of \<open>open_disks\<close>.

  An array has one file per disk here. Where the configuration names a path twice the
  code opens the same file twice, and the array it returns has two disks that share a
  file: no \<open>RAIDArray\<close> of this theory stands for it, and \<open>NewRAIDArray\<close> is \<open>None\<close>
  (the last line of the definition). Everywhere else it is \<open>Some\<close> of what the code
  returns.

  The capacity is the product as the code computes it. Where it wraps around to a
  negative number it is kept as 0: the facade rejects every block either way.
\<close>

datatype config_error = ConfigError error | DiskCreateFailed nat disk_error

fun open_disks :: "(string \<Rightarrow> byte list) \<Rightarrow> nat \<Rightarrow> string list \<Rightarrow> int \<Rightarrow> int
    \<Rightarrow> config_error + Disk list" where
  "open_disks fs i [] bs nb = Inr []"
| "open_disks fs i (p # ps) bs nb =
     (case NewDisk (fs p) p bs nb of
        Inl err \<Rightarrow> Inl (DiskCreateFailed i err)
      | Inr disk \<Rightarrow>
          (case open_disks fs (i + 1) ps bs nb of
             Inl err \<Rightarrow> Inl err
           | Inr ds \<Rightarrow> Inr (disk # ds)))"

definition NewRAIDArray :: "(string \<Rightarrow> byte list) \<Rightarrow> RAIDConfig
    \<Rightarrow> (config_error + RAIDArray) option" where
  "NewRAIDArray fs config =
     (case
        (if length (DiskPaths config) < 2 then Inl (ConfigError ConfigTooFewDisks)
         else if Level config = RAID5 \<and> length (DiskPaths config) < 3
           then Inl (ConfigError ConfigRaid5TooFewDisks)
         else if BlockSize config \<le> 0 then Inl (ConfigError ConfigBlockSize)
         else if BlocksPerDisk config \<le> 0 then Inl (ConfigError ConfigBlocksPerDisk)
         else (case open_disks fs 0 (DiskPaths config) (BlockSize config) (BlocksPerDisk config) of
                 Inl err \<Rightarrow> Inl err
               | Inr ds \<Rightarrow>
                   (let r = \<lparr> level = Level config, disks = ds,
                              arrayBlockSize = nat (BlockSize config),
                              numDisks = length ds, capacity = 0 \<rparr>
                    in if Level config = RAID0
                         then Inr (r\<lparr>capacity := nat (mul_int (BlocksPerDisk config) (int (length ds)))\<rparr>)
                       else if Level config = RAID1
                         then Inr (r\<lparr>capacity := nat (BlocksPerDisk config)\<rparr>)
                       else if Level config = RAID5
                         then Inr (r\<lparr>capacity := nat (mul_int (BlocksPerDisk config) (int (length ds) - 1))\<rparr>)
                       else Inl (ConfigError (UnsupportedLevel (Level config))))))
      of
        Inl err \<Rightarrow> Some (Inl err)
      | Inr r \<Rightarrow> if distinct (DiskPaths config) then Some (Inr r) else None)"

section \<open>The level engines\<close>

subsection \<open>Level 0\<close>

definition raid0_writeBlock :: "RAIDArray \<Rightarrow> nat \<Rightarrow> block \<Rightarrow> error option \<times> RAIDArray" where
  "raid0_writeBlock a logicalBlockID dat =
     (let diskIndex = logicalBlockID mod numDisks a;
          physicalBlockID = logicalBlockID div numDisks a
      in disks_WriteBlock a diskIndex physicalBlockID dat)"

definition raid0_readBlock :: "RAIDArray \<Rightarrow> nat \<Rightarrow> (error + block) \<times> RAIDArray" where
  "raid0_readBlock a logicalBlockID =
     (let diskIndex = logicalBlockID mod numDisks a;
          physicalBlockID = logicalBlockID div numDisks a
      in disks_ReadBlock a diskIndex physicalBlockID)"

subsection \<open>Level 1\<close>

text \<open>
  The mirrored write starts one goroutine per disk; each writes its disk and sends
  its result on a channel, which the engine drains after all have finished. The
  writes go to different disks, so the disks they leave do not depend on their order.
  The order in which the results arrive does reach the error value (the last error,
  the order of the failed indices): it is the parameter \<open>sched\<close>, a permutation of
  the disk indices.
\<close>

fun collect :: "(nat \<times> error option) list \<Rightarrow> nat \<times> error option \<times> nat list
    \<Rightarrow> nat \<times> error option \<times> nat list" where
  "collect [] acc = acc"
| "collect ((diskIndex, err) # results) (successCount, lastErr, failedDisks) =
     (case err of
        None \<Rightarrow> collect results (successCount + 1, lastErr, failedDisks)
      | Some e \<Rightarrow> collect results (successCount, Some e, failedDisks @ [diskIndex]))"

definition raid1_writeBlock :: "RAIDArray \<Rightarrow> nat list \<Rightarrow> nat \<Rightarrow> block \<Rightarrow> error option \<times> RAIDArray" where
  "raid1_writeBlock a sched logicalBlockID dat =
     (let results = map (\<lambda>diskIndex.
              (diskIndex, fst (Disk_WriteBlock (disks a ! diskIndex) (int logicalBlockID) dat))) sched;
          a' = a\<lparr>disks := map (\<lambda>diskIndex.
              snd (Disk_WriteBlock (disks a ! diskIndex) (int logicalBlockID) dat)) [0..<numDisks a]\<rparr>
      in case collect results (0, None, []) of
           (successCount, lastErr, failedDisks) \<Rightarrow>
             if successCount = 0 then (Some (AllReplicasFailed lastErr), a')
             else if successCount < numDisks a
               then (Some (DegradedWrite successCount (numDisks a) failedDisks), a')
             else (None, a'))"

fun raid1_read_loop :: "RAIDArray \<Rightarrow> nat \<Rightarrow> error option \<Rightarrow> nat list \<Rightarrow> (error + block) \<times> RAIDArray" where
  "raid1_read_loop a logicalBlockID lastErr [] = (Inl (NoReplicaAvailable lastErr), a)"
| "raid1_read_loop a logicalBlockID lastErr (i # is) =
     (if IsFailed (disks a ! i) then raid1_read_loop a logicalBlockID lastErr is
      else (case disks_ReadBlock a i logicalBlockID of
              (Inr dat, a') \<Rightarrow> (Inr dat, a')
            | (Inl err, a') \<Rightarrow> raid1_read_loop a' logicalBlockID (Some err) is))"

definition raid1_readBlock :: "RAIDArray \<Rightarrow> nat \<Rightarrow> (error + block) \<times> RAIDArray" where
  "raid1_readBlock a logicalBlockID = raid1_read_loop a logicalBlockID None [0..<numDisks a]"

subsection \<open>Level 5\<close>

text \<open>
  The engine is reached through the facade only, with a logical block ID in
  \<open>[0, capacity)\<close>, on an array of at least three disks: the divisor \<open>numDisks - 1\<close> is
  positive. The first function is the loop of \<open>writeBlock\<close> that gathers the new
  parity, over the data positions.
\<close>

fun parity_loop :: "RAIDArray \<Rightarrow> nat \<Rightarrow> nat \<Rightarrow> nat \<Rightarrow> block \<Rightarrow> nat list
    \<Rightarrow> (error + block) \<times> RAIDArray" where
  "parity_loop a stripeNum stripeOffset parityDisk parity [] = (Inr parity, a)"
| "parity_loop a stripeNum stripeOffset parityDisk parity (i # is) =
     (if i = stripeOffset then parity_loop a stripeNum stripeOffset parityDisk parity is
      else let diskIdx = (if i \<ge> parityDisk then i + 1 else i) in
        if IsFailed (disks a ! diskIdx)
          then parity_loop a stripeNum stripeOffset parityDisk parity is
        else (case disks_ReadBlock a diskIdx stripeNum of
                (Inl err, a') \<Rightarrow> (Inl (ParityCalcFailed diskIdx err), a')
              | (Inr blockData, a') \<Rightarrow>
                  parity_loop a' stripeNum stripeOffset parityDisk (xorBytes parity blockData) is))"

text \<open>
  \<open>parity := make([]byte, blockSize); copy(parity, data)\<close>: the first \<open>blockSize\<close>
  bytes of the data, padded with zeros.
\<close>

definition copy_block :: "nat \<Rightarrow> block \<Rightarrow> block" where
  "copy_block n dat = take n dat @ replicate (n - length dat) 0"

definition raid5_writeBlock :: "RAIDArray \<Rightarrow> nat \<Rightarrow> block \<Rightarrow> error option \<times> RAIDArray" where
  "raid5_writeBlock a logicalBlockID dat =
     (let stripeNum = logicalBlockID div (numDisks a - 1);
          stripeOffset = logicalBlockID mod (numDisks a - 1);
          parityDisk = stripeNum mod numDisks a;
          dataDisk = (if stripeOffset \<ge> parityDisk then stripeOffset + 1 else stripeOffset)
      in case parity_loop a stripeNum stripeOffset parityDisk
                (copy_block (arrayBlockSize a) dat) [0..<numDisks a - 1] of
           (Inl err, a1) \<Rightarrow> (Some err, a1)
         | (Inr parity, a1) \<Rightarrow>
             (case (if \<not> IsFailed (disks a1 ! parityDisk)
                    then disks_WriteBlock a1 parityDisk stripeNum parity
                    else (None, a1)) of
                (Some err, a2) \<Rightarrow> (Some (ParityWriteFailed parityDisk err), a2)
              | (None, a2) \<Rightarrow>
                  (case disks_WriteBlock a2 dataDisk stripeNum dat of
                     (Some err, a3) \<Rightarrow> (Some (DataWriteFailed dataDisk err), a3)
                   | (None, a3) \<Rightarrow> (None, a3))))"

fun reconstruct_loop :: "RAIDArray \<Rightarrow> nat \<Rightarrow> nat \<Rightarrow> nat \<Rightarrow> block \<Rightarrow> nat list
    \<Rightarrow> (error + block) \<times> RAIDArray" where
  "reconstruct_loop a stripeNum missingDisk parityDisk reconstructed [] = (Inr reconstructed, a)"
| "reconstruct_loop a stripeNum missingDisk parityDisk reconstructed (i # is) =
     (if i = parityDisk \<or> i = missingDisk
        then reconstruct_loop a stripeNum missingDisk parityDisk reconstructed is
      else if IsFailed (disks a ! i) then (Inl MultipleFailures, a)
      else (case disks_ReadBlock a i stripeNum of
              (Inl err, a') \<Rightarrow> (Inl (ReconstructReadFailed i err), a')
            | (Inr blockData, a') \<Rightarrow>
                reconstruct_loop a' stripeNum missingDisk parityDisk
                  (xorBytes reconstructed blockData) is))"

definition reconstructBlock :: "RAIDArray \<Rightarrow> nat \<Rightarrow> nat \<Rightarrow> nat \<Rightarrow> (error + block) \<times> RAIDArray" where
  "reconstructBlock a stripeNum missingDisk parityDisk =
     (if IsFailed (disks a ! parityDisk) then (Inl (ParityDiskFailed parityDisk), a)
      else (case disks_ReadBlock a parityDisk stripeNum of
              (Inl err, a') \<Rightarrow> (Inl (ParityReadFailed parityDisk err), a')
            | (Inr reconstructed, a') \<Rightarrow>
                reconstruct_loop a' stripeNum missingDisk parityDisk reconstructed
                  [0..<numDisks a]))"

definition raid5_readBlock :: "RAIDArray \<Rightarrow> nat \<Rightarrow> (error + block) \<times> RAIDArray" where
  "raid5_readBlock a logicalBlockID =
     (let stripeNum = logicalBlockID div (numDisks a - 1);
          stripeOffset = logicalBlockID mod (numDisks a - 1);
          parityDisk = stripeNum mod numDisks a;
          dataDisk = (if stripeOffset \<ge> parityDisk then stripeOffset + 1 else stripeOffset)
      in if \<not> IsFailed (disks a ! dataDisk)
         then (case disks_ReadBlock a dataDisk stripeNum of
                 (Inr dat, a') \<Rightarrow> (Inr dat, a')
               | (Inl err, a') \<Rightarrow> reconstructBlock a' stripeNum dataDisk parityDisk)
         else reconstructBlock a stripeNum dataDisk parityDisk)"

fun rebuildParity_loop :: "RAIDArray \<Rightarrow> nat \<Rightarrow> nat \<Rightarrow> block \<Rightarrow> nat list
    \<Rightarrow> (error + block) \<times> RAIDArray" where
  "rebuildParity_loop a stripeNum parityDisk parity [] = (Inr parity, a)"
| "rebuildParity_loop a stripeNum parityDisk parity (i # is) =
     (if i = parityDisk then rebuildParity_loop a stripeNum parityDisk parity is
      else (case disks_ReadBlock a i stripeNum of
              (Inl err, a') \<Rightarrow> (Inl (RebuildReadFailed i err), a')
            | (Inr blockData, a') \<Rightarrow>
                rebuildParity_loop a' stripeNum parityDisk (xorBytes parity blockData) is))"

definition rebuildParityBlock :: "RAIDArray \<Rightarrow> nat \<Rightarrow> nat \<Rightarrow> error option \<times> RAIDArray" where
  "rebuildParityBlock a stripeNum parityDisk =
     (case rebuildParity_loop a stripeNum parityDisk (replicate (arrayBlockSize a) 0)
             [0..<numDisks a] of
        (Inl err, a') \<Rightarrow> (Some err, a')
      | (Inr parity, a') \<Rightarrow> disks_WriteBlock a' parityDisk stripeNum parity)"

text \<open>
  The inner loop of \<open>rebuildDisk\<close> over the data positions of a stripe: it stops
  (\<open>break\<close>) at the position that lies on the disk being rebuilt.
\<close>

fun rebuild_offsets :: "RAIDArray \<Rightarrow> nat \<Rightarrow> nat \<Rightarrow> nat \<Rightarrow> nat list \<Rightarrow> error option \<times> RAIDArray" where
  "rebuild_offsets a stripeNum diskIndex parityDisk [] = (None, a)"
| "rebuild_offsets a stripeNum diskIndex parityDisk (offset # offsets) =
     (let diskIdx = (if offset \<ge> parityDisk then offset + 1 else offset) in
      if diskIdx = diskIndex then
        (case reconstructBlock a stripeNum diskIndex parityDisk of
           (Inl err, a') \<Rightarrow>
             (Some (RebuildReconstructFailed stripeNum err), disks_SetFailed a' diskIndex True)
         | (Inr reconstructed, a') \<Rightarrow>
             (case disks_WriteBlock a' diskIndex stripeNum reconstructed of
                (Some err, a'') \<Rightarrow>
                  (Some (RebuildWriteFailed stripeNum err), disks_SetFailed a'' diskIndex True)
              | (None, a'') \<Rightarrow> (None, a'')))
      else rebuild_offsets a stripeNum diskIndex parityDisk offsets)"

fun rebuild_stripes :: "RAIDArray \<Rightarrow> nat \<Rightarrow> nat list \<Rightarrow> error option \<times> RAIDArray" where
  "rebuild_stripes a diskIndex [] = (None, a)"
| "rebuild_stripes a diskIndex (stripeNum # stripes) =
     (let parityDisk = stripeNum mod numDisks a in
      if diskIndex = parityDisk then
        (case rebuildParityBlock a stripeNum diskIndex of
           (Some err, a') \<Rightarrow>
             (Some (RebuildFailedAt stripeNum err), disks_SetFailed a' diskIndex True)
         | (None, a') \<Rightarrow> rebuild_stripes a' diskIndex stripes)
      else
        (case rebuild_offsets a stripeNum diskIndex parityDisk [0..<numDisks a - 1] of
           (Some err, a') \<Rightarrow> (Some err, a')
         | (None, a') \<Rightarrow> rebuild_stripes a' diskIndex stripes))"

definition raid5_rebuildDisk :: "RAIDArray \<Rightarrow> int \<Rightarrow> error option \<times> RAIDArray" where
  "raid5_rebuildDisk a diskIndex =
     (if diskIndex < 0 \<or> diskIndex \<ge> int (numDisks a) then (Some (InvalidDiskIndex diskIndex), a)
      else if \<not> IsFailed (disks a ! nat diskIndex) then (Some (NotMarkedFailed diskIndex), a)
      else let a1 = disks_SetFailed a (nat diskIndex) False;
               maxStripes = Capacity_disk (disks a1 ! nat diskIndex)
           in rebuild_stripes a1 (nat diskIndex) [0..<maxStripes])"

section \<open>The array facade\<close>

definition WriteBlock :: "RAIDArray \<Rightarrow> nat list \<Rightarrow> int \<Rightarrow> block \<Rightarrow> error option \<times> RAIDArray" where
  "WriteBlock a sched logicalBlockID dat =
     (if logicalBlockID < 0 \<or> logicalBlockID \<ge> int (capacity a)
        then (Some (OutOfBounds logicalBlockID (capacity a)), a)
      else if length dat \<noteq> arrayBlockSize a then (Some (BadBufferSize (arrayBlockSize a)), a)
      else if level a = RAID0 then raid0_writeBlock a (nat logicalBlockID) dat
      else if level a = RAID1 then raid1_writeBlock a sched (nat logicalBlockID) dat
      else if level a = RAID5 then raid5_writeBlock a (nat logicalBlockID) dat
      else (Some (UnsupportedLevel (level a)), a))"

definition ReadBlock :: "RAIDArray \<Rightarrow> int \<Rightarrow> (error + block) \<times> RAIDArray" where
  "ReadBlock a logicalBlockID =
     (if logicalBlockID < 0 \<or> logicalBlockID \<ge> int (capacity a)
        then (Inl (OutOfBounds logicalBlockID (capacity a)), a)
      else if level a = RAID0 then raid0_readBlock a (nat logicalBlockID)
      else if level a = RAID1 then raid1_readBlock a (nat logicalBlockID)
      else if level a = RAID5 then raid5_readBlock a (nat logicalBlockID)
      else (Inl (UnsupportedLevel (level a)), a))"

definition RebuildDisk :: "RAIDArray \<Rightarrow> int \<Rightarrow> error option \<times> RAIDArray" where
  "RebuildDisk a diskIndex =
     (if level a \<noteq> RAID5 then (Some UnsupportedForLevel, a)
      else raid5_rebuildDisk a diskIndex)"

section \<open>Properties: definitions\<close>

text \<open>
  The XOR of the blocks \<open>f i\<close>, for \<open>i\<close> along a list of disk indices, into an
  accumulator: what the loops of the level-5 engine compute with \<open>xorBytes\<close>.
\<close>

definition xor_fold :: "(nat \<Rightarrow> block) \<Rightarrow> nat list \<Rightarrow> block \<Rightarrow> block" where
  "xor_fold f is acc = fold (\<lambda>i acc. xorBytes acc (f i)) is acc"

text \<open>
  Physical block \<open>b\<close> of a disk: the bytes \<open>[b * blockSize, (b + 1) * blockSize)\<close> of
  its file; \<open>block_at a i b\<close> is physical block \<open>b\<close> of disk \<open>i\<close> of the array.
\<close>

definition blk :: "Disk \<Rightarrow> nat \<Rightarrow> block" where
  "blk d b = take (blockSize d) (drop (b * blockSize d) (fileData d))"

definition block_at :: "RAIDArray \<Rightarrow> nat \<Rightarrow> nat \<Rightarrow> block" where
  "block_at a i b = blk (disks a ! i) b"

text \<open>
  The arrays that \<open>NewRAIDArray\<close> builds, and that the operations keep: \<open>numDisks\<close> is
  the number of disks, at least two (three at level 5); all disks have the block size
  of the array and the same positive number of blocks, and a file that holds them
  all; the capacity is the one of the level.
\<close>

definition blocksPerDisk :: "RAIDArray \<Rightarrow> nat" where
  "blocksPerDisk a = numBlocks (disks a ! 0)"

definition wf_disk :: "nat \<Rightarrow> nat \<Rightarrow> Disk \<Rightarrow> bool" where
  "wf_disk bs nb d \<longleftrightarrow> blockSize d = bs \<and> numBlocks d = nb \<and> bs * nb \<le> length (fileData d)"

definition wf_array :: "RAIDArray \<Rightarrow> bool" where
  "wf_array a \<longleftrightarrow>
     numDisks a = length (disks a) \<and> 2 \<le> numDisks a \<and> 0 < arrayBlockSize a \<and>
     0 < blocksPerDisk a \<and>
     list_all (wf_disk (arrayBlockSize a) (blocksPerDisk a)) (disks a) \<and>
     (level a = RAID0 \<and> capacity a = blocksPerDisk a * numDisks a \<or>
      level a = RAID1 \<and> capacity a = blocksPerDisk a \<or>
      level a = RAID5 \<and> 3 \<le> numDisks a \<and> capacity a = blocksPerDisk a * (numDisks a - 1))"

text \<open>\<open>write_ok a b dat i\<close>: the write of \<open>dat\<close> to block \<open>b\<close> of disk \<open>i\<close> succeeds.\<close>

definition write_ok :: "RAIDArray \<Rightarrow> nat \<Rightarrow> block \<Rightarrow> nat \<Rightarrow> bool" where
  "write_ok a b dat i \<longleftrightarrow> fst (Disk_WriteBlock (disks a ! i) (int b) dat) = None"

text \<open>
  An array without its counters: the contents, sizes and failed flags of the disks.
  \<open>uncounted a = uncounted b\<close> says that \<open>a\<close> and \<open>b\<close> differ in counters only.
\<close>

definition uncounted_disk :: "Disk \<Rightarrow> Disk" where
  "uncounted_disk d = d\<lparr>writeCount := 0, readCount := 0\<rparr>"

definition uncounted :: "RAIDArray \<Rightarrow> RAIDArray" where
  "uncounted a = a\<lparr>disks := map uncounted_disk (disks a)\<rparr>"

text \<open>\<open>put a i b dat\<close>: the array \<open>a\<close> with block \<open>b\<close> of disk \<open>i\<close> overwritten by \<open>dat\<close>.\<close>

definition put :: "RAIDArray \<Rightarrow> nat \<Rightarrow> nat \<Rightarrow> block \<Rightarrow> RAIDArray" where
  "put a i b dat =
     a\<lparr>disks := (disks a)[i := (disks a ! i)
         \<lparr>fileData := WriteAt (fileData (disks a ! i)) dat (b * blockSize (disks a ! i))\<rparr>]\<rparr>"

text \<open>
  When a read, or a write, of block \<open>b\<close> of disk \<open>i\<close> succeeds: the disk is not marked
  failed, the block is in range, and the file holds it (the buffer has the block size).
\<close>

definition readable :: "RAIDArray \<Rightarrow> nat \<Rightarrow> nat \<Rightarrow> bool" where
  "readable a i b \<longleftrightarrow>
     i < length (disks a) \<and> \<not> failed (disks a ! i) \<and> b < numBlocks (disks a ! i) \<and>
     b * blockSize (disks a ! i) + blockSize (disks a ! i) \<le> length (fileData (disks a ! i))"

definition writable :: "RAIDArray \<Rightarrow> nat \<Rightarrow> nat \<Rightarrow> block \<Rightarrow> bool" where
  "writable a i b dat \<longleftrightarrow>
     i < length (disks a) \<and> \<not> failed (disks a ! i) \<and> b < numBlocks (disks a ! i) \<and>
     length dat = blockSize (disks a ! i)"

text \<open>
  The level-5 layout in the words of the specification: the stripe of a logical
  block, its position among the data members, the parity disk of the stripe, and the
  data disk (the position, skipping over the parity slot).
\<close>

definition stripe_of :: "nat \<Rightarrow> nat \<Rightarrow> nat" where
  "stripe_of N lbid = lbid div (N - 1)"

definition stripe_offset_of :: "nat \<Rightarrow> nat \<Rightarrow> nat" where
  "stripe_offset_of N lbid = lbid mod (N - 1)"

definition parity_disk_of :: "nat \<Rightarrow> nat \<Rightarrow> nat" where
  "parity_disk_of N lbid = stripe_of N lbid mod N"

definition skip_parity :: "nat \<Rightarrow> nat \<Rightarrow> nat" where
  "skip_parity parity_disk stripe_offset =
     (if stripe_offset < parity_disk then stripe_offset else stripe_offset + 1)"

definition data_disk_of :: "nat \<Rightarrow> nat \<Rightarrow> nat" where
  "data_disk_of N lbid = skip_parity (parity_disk_of N lbid) (stripe_offset_of N lbid)"

text \<open>The disks holding the other data members of a stripe, in the order of the loops.\<close>

definition siblings :: "nat \<Rightarrow> nat \<Rightarrow> nat \<Rightarrow> nat list" where
  "siblings N parity_disk stripe_offset =
     map (skip_parity parity_disk) (filter (\<lambda>i. i \<noteq> stripe_offset) [0..<N - 1])"

definition others :: "nat \<Rightarrow> nat \<Rightarrow> nat \<Rightarrow> nat list" where
  "others N parity_disk missing = filter (\<lambda>i. i \<noteq> parity_disk \<and> i \<noteq> missing) [0..<N]"

text \<open>
  The write of the specification (section 4.5, steps 2 to 4): the new parity is the
  data XOR the current blocks of the sibling data members that are not failed; it is
  written to the parity disk unless that disk is failed; then the data is written.
\<close>

definition new_parity :: "RAIDArray \<Rightarrow> nat \<Rightarrow> block \<Rightarrow> block" where
  "new_parity a lbid dat =
     xor_fold (\<lambda>j. block_at a j (stripe_of (numDisks a) lbid))
       (filter (\<lambda>j. \<not> failed (disks a ! j))
          (siblings (numDisks a) (parity_disk_of (numDisks a) lbid) (stripe_offset_of (numDisks a) lbid)))
       dat"

definition parity_written :: "RAIDArray \<Rightarrow> nat \<Rightarrow> block \<Rightarrow> RAIDArray" where
  "parity_written a lbid dat =
     (if failed (disks a ! parity_disk_of (numDisks a) lbid) then a
      else put a (parity_disk_of (numDisks a) lbid) (stripe_of (numDisks a) lbid) (new_parity a lbid dat))"

definition raid5_written :: "RAIDArray \<Rightarrow> nat \<Rightarrow> block \<Rightarrow> RAIDArray" where
  "raid5_written a lbid dat =
     put (parity_written a lbid dat) (data_disk_of (numDisks a) lbid) (stripe_of (numDisks a) lbid) dat"

text \<open>
  The parity invariant: on every stripe, the XOR of the blocks of all member disks is
  the zero block.
\<close>

definition zero_block :: "nat \<Rightarrow> block" where
  "zero_block n = replicate n 0"

definition stripe_xor :: "RAIDArray \<Rightarrow> nat \<Rightarrow> block" where
  "stripe_xor a s = xor_fold (\<lambda>i. block_at a i s) [0..<numDisks a] (zero_block (arrayBlockSize a))"

definition parity_inv :: "RAIDArray \<Rightarrow> bool" where
  "parity_inv a \<longleftrightarrow>
     list_all (\<lambda>s. stripe_xor a s = zero_block (arrayBlockSize a)) [0..<blocksPerDisk a]"

definition all_healthy :: "RAIDArray \<Rightarrow> bool" where
  "all_healthy a \<longleftrightarrow> list_all (\<lambda>d. \<not> failed d) (disks a)"

definition zero_filled :: "RAIDArray \<Rightarrow> bool" where
  "zero_filled a \<longleftrightarrow> list_all (\<lambda>d. list_all (\<lambda>x. x = 0) (fileData d)) (disks a)"

text \<open>
  A sequence of client operations on the array: each one runs on the array that the
  one before it left, whatever its result.
\<close>

datatype operation = Write "nat list" int block | Read int

fun apply_op :: "RAIDArray \<Rightarrow> operation \<Rightarrow> RAIDArray" where
  "apply_op a (Write sched lbid dat) = snd (WriteBlock a sched lbid dat)"
| "apply_op a (Read lbid) = snd (ReadBlock a lbid)"

fun run :: "RAIDArray \<Rightarrow> operation list \<Rightarrow> RAIDArray" where
  "run a [] = a"
| "run a (x # xs) = run (apply_op a x) xs"

text \<open>The invariant of a healthy level-5 array.\<close>

definition healthy_parity :: "RAIDArray \<Rightarrow> bool" where
  "healthy_parity a \<longleftrightarrow> wf_array a \<and> level a = RAID5 \<and> all_healthy a \<and> parity_inv a"

text \<open>
  Where a logical block is kept: the (disk, physical block) pairs that a successful
  write has filled with the data. Level 0: one block; level 1: the block on every disk;
  level 5: the block on the data disk.
\<close>

definition home_blocks :: "RAIDArray \<Rightarrow> nat \<Rightarrow> (nat \<times> nat) list" where
  "home_blocks a l =
     (if level a = RAID0 then [(l mod numDisks a, l div numDisks a)]
      else if level a = RAID1 then map (\<lambda>i. (i, l)) [0..<numDisks a]
      else [(data_disk_of (numDisks a) l, stripe_of (numDisks a) l)])"

definition stored :: "RAIDArray \<Rightarrow> nat \<Rightarrow> block \<Rightarrow> bool" where
  "stored a l dat \<longleftrightarrow>
     wf_array a \<and> l < capacity a \<and> length dat = arrayBlockSize a \<and>
     list_all (\<lambda>(i, b). \<not> failed (disks a ! i) \<and> block_at a i b = dat) (home_blocks a l)"

fun no_write_to :: "int \<Rightarrow> operation \<Rightarrow> bool" where
  "no_write_to lbid (Write sched l dat) = (l \<noteq> lbid)"
| "no_write_to lbid (Read l) = True"

text \<open>The mirror after a write: each disk as its own write leaves it.\<close>

definition raid1_written :: "RAIDArray \<Rightarrow> nat \<Rightarrow> block \<Rightarrow> RAIDArray" where
  "raid1_written a l dat =
     a\<lparr>disks := map (\<lambda>i. snd (Disk_WriteBlock (disks a ! i) (int l) dat)) [0..<numDisks a]\<rparr>"

text \<open>
  What \<open>rebuildDisk\<close> does at a stripe whose parity is on another disk: it reconstructs
  the block of the disk and writes it; on an error it marks the disk failed again.
\<close>

definition rebuild_data_block :: "RAIDArray \<Rightarrow> nat \<Rightarrow> nat \<Rightarrow> nat \<Rightarrow> error option \<times> RAIDArray" where
  "rebuild_data_block a stripeNum diskIndex parityDisk =
     (case reconstructBlock a stripeNum diskIndex parityDisk of
        (Inl err, a') \<Rightarrow>
          (Some (RebuildReconstructFailed stripeNum err), disks_SetFailed a' diskIndex True)
      | (Inr reconstructed, a') \<Rightarrow>
          (case disks_WriteBlock a' diskIndex stripeNum reconstructed of
             (Some err, a'') \<Rightarrow>
               (Some (RebuildWriteFailed stripeNum err), disks_SetFailed a'' diskIndex True)
           | (None, a'') \<Rightarrow> (None, a'')))"

text \<open>\<open>read_fails a i s\<close>: disk \<open>i\<close> is marked failed or returns a read error at block \<open>s\<close>.\<close>

definition read_fails :: "RAIDArray \<Rightarrow> nat \<Rightarrow> nat \<Rightarrow> bool" where
  "read_fails a i s \<longleftrightarrow> (case fst (Disk_ReadBlock (disks a ! i) (int s)) of Inl e \<Rightarrow> True | Inr dat \<Rightarrow> False)"

text \<open>
  \<open>same_others d a a'\<close>: the arrays have the same disks, and every disk but \<open>d\<close> differs
  in counters only.
\<close>

definition same_others :: "nat \<Rightarrow> RAIDArray \<Rightarrow> RAIDArray \<Rightarrow> bool" where
  "same_others d a a' \<longleftrightarrow>
     numDisks a' = numDisks a \<and> length (disks a') = length (disks a) \<and>
     (\<forall>i<length (disks a). i \<noteq> d \<longrightarrow> uncounted_disk (disks a' ! i) = uncounted_disk (disks a ! i))"

text \<open>One iteration of the outer loop of \<open>rebuildDisk\<close>.\<close>

definition rebuild_step :: "RAIDArray \<Rightarrow> nat \<Rightarrow> nat \<Rightarrow> error option \<times> RAIDArray" where
  "rebuild_step a s d =
     (if d = s mod numDisks a then
        (case rebuildParityBlock a s d of
           (Some err, a') \<Rightarrow> (Some (RebuildFailedAt s err), disks_SetFailed a' d True)
         | (None, a') \<Rightarrow> (None, a'))
      else rebuild_data_block a s d (s mod numDisks a))"

text \<open>
  \<open>same_but_disk d a a0\<close>: the arrays \<open>a\<close> and \<open>a0\<close> differ in disk \<open>d\<close> and in counters
  only (with disk \<open>d\<close> of \<open>a0\<close> put in its place, \<open>a\<close> is \<open>a0\<close> up to counters).
\<close>

definition same_but_disk :: "nat \<Rightarrow> RAIDArray \<Rightarrow> RAIDArray \<Rightarrow> bool" where
  "same_but_disk d a a0 \<longleftrightarrow> uncounted (a\<lparr>disks := (disks a)[d := disks a0 ! d]\<rparr>) = uncounted a0"

subsection \<open>Concrete arrays\<close>

text \<open>
  Arrays on which the operations are evaluated: disks of two one-byte blocks.
\<close>

definition disk_of :: "byte list \<Rightarrow> bool \<Rightarrow> Disk" where
  "disk_of f fl = \<lparr> fileData = f, path = [], blockSize = 1, numBlocks = 2, failed = fl,
                    writeCount = 0, readCount = 0 \<rparr>"

definition array_of :: "int \<Rightarrow> nat \<Rightarrow> Disk list \<Rightarrow> RAIDArray" where
  "array_of lv cap ds = \<lparr> level = lv, disks = ds, arrayBlockSize = 1, numDisks = length ds,
                          capacity = cap \<rparr>"

definition mirror_degraded :: RAIDArray where
  "mirror_degraded = array_of RAID1 2 [disk_of [0, 0] True, disk_of [5, 6] False]"

definition stripe_pair :: RAIDArray where
  "stripe_pair = array_of RAID0 4 [disk_of [0, 0] False, disk_of [0, 0] False]"

definition parity3_failed1 :: RAIDArray where
  "parity3_failed1 = array_of RAID5 4 [disk_of [0, 0] False, disk_of [0, 0] True, disk_of [0, 0] False]"

definition parity3 :: RAIDArray where
  "parity3 = array_of RAID5 4 [disk_of [0, 0] False, disk_of [0, 0] False, disk_of [0, 0] False]"

definition stale_config :: RAIDConfig where
  "stale_config = \<lparr> Level = RAID5, DiskPaths = [''d0'', ''d1'', ''d2''], BlockSize = 1,
                     BlocksPerDisk = 2 \<rparr>"

definition stale_parity :: RAIDArray where
  "stale_parity = array_of RAID5 4
     [(disk_of [1, 0] False)\<lparr>path := ''d0''\<rparr>, (disk_of [0, 0] False)\<lparr>path := ''d1''\<rparr>,
      (disk_of [0, 0] False)\<lparr>path := ''d2''\<rparr>]"

definition mirror2 :: RAIDArray where
  "mirror2 = array_of RAID1 2 [disk_of [0, 0] False, disk_of [5, 6] False]"

definition second_failure :: RAIDArray where
  "second_failure = array_of RAID5 4 [disk_of [0, 0] False, disk_of [0, 0] True, disk_of [0, 0] True]"

definition short_disk :: RAIDArray where
  "short_disk = array_of RAID5 4 [disk_of [4, 0] False, disk_of [0, 0] True, disk_of [4] False]"

definition replaced0 :: RAIDArray where
  "replaced0 = array_of RAID5 4 [disk_of [200, 201] True, disk_of [3, 9] False, disk_of [7, 9] False]"

definition replaced2 :: RAIDArray where
  "replaced2 = array_of RAID5 4 [disk_of [4, 0] False, disk_of [3, 9] False, disk_of [200, 201] True]"

section \<open>Properties: proofs\<close>

lemma length_xorBytes [simp]: "length (xorBytes dst src) = length dst"
  by (induction dst src rule: xorBytes.induct) auto

lemma xorBytes_Nil2 [simp]: "xorBytes dst [] = dst"
  by (cases dst) auto

lemma nth_xorBytes:
  "i < length dst \<Longrightarrow> xorBytes dst src ! i = (if i < length src then dst ! i XOR src ! i else dst ! i)"
  by (induction dst src arbitrary: i rule: xorBytes.induct) (auto simp: nth_Cons split: nat.splits)

lemma xorBytes_swap: "xorBytes (xorBytes a x) y = xorBytes (xorBytes a y) x"
  by (rule nth_equalityI) (auto simp: nth_xorBytes xor.assoc xor.commute xor.left_commute)

lemma xorBytes_cancel: "xorBytes (xorBytes a b) b = a"
  by (rule nth_equalityI) (auto simp: nth_xorBytes xor.assoc)

lemma xorBytes_self: "xorBytes a a = replicate (length a) 0"
  by (rule nth_equalityI) (auto simp: nth_xorBytes)

lemma xorBytes_zero_left: "length b = n \<Longrightarrow> xorBytes (replicate n 0) b = b"
  by (rule nth_equalityI) (auto simp: nth_xorBytes)

lemma xorBytes_zero_right: "xorBytes a (replicate n 0) = a"
  by (rule nth_equalityI) (auto simp: nth_xorBytes)

lemma xorBytes_commute: "length a = length b \<Longrightarrow> xorBytes a b = xorBytes b a"
  by (rule nth_equalityI) (auto simp: nth_xorBytes xor.commute)

lemma xorBytes_eq_zero_iff:
  "length a = length b \<Longrightarrow> xorBytes a b = replicate (length a) 0 \<longleftrightarrow> a = b"
proof
  assume l: "length a = length b" and z: "xorBytes a b = replicate (length a) 0"
  have "xorBytes (xorBytes a b) b = b" unfolding z using l by (simp add: xorBytes_zero_left)
  then show "a = b" by (simp add: xorBytes_cancel)
next
  assume "a = b" then show "xorBytes a b = replicate (length a) 0" by (simp add: xorBytes_self)
qed

lemma xor_fold_Nil [simp]: "xor_fold f [] acc = acc"
  by (simp add: xor_fold_def)

lemma xor_fold_Cons [simp]: "xor_fold f (i # is) acc = xor_fold f is (xorBytes acc (f i))"
  by (simp add: xor_fold_def)

lemma length_xor_fold [simp]: "length (xor_fold f is acc) = length acc"
  by (induction "is" arbitrary: acc) auto

lemma xor_fold_acc: "xor_fold f is (xorBytes acc x) = xorBytes (xor_fold f is acc) x"
proof (induction "is" arbitrary: acc)
  case Nil
  show ?case by simp
next
  case (Cons i "is")
  have "xor_fold f (i # is) (xorBytes acc x) = xor_fold f is (xorBytes (xorBytes acc (f i)) x)"
    by (simp add: xorBytes_swap [of acc x])
  also have "\<dots> = xorBytes (xor_fold f is (xorBytes acc (f i))) x"
    by (rule Cons.IH)
  finally show ?case by simp
qed

lemma xor_fold_perm: "mset is = mset js \<Longrightarrow> xor_fold f is acc = xor_fold f js acc"
  unfolding xor_fold_def
  by (rule fun_cong [OF fold_multiset_equiv]) (auto simp: fun_eq_iff xorBytes_swap)

lemma xor_fold_cong: "(\<And>i. i \<in> set is \<Longrightarrow> f i = g i) \<Longrightarrow> xor_fold f is acc = xor_fold g is acc"
  by (induction "is" arbitrary: acc) auto

lemma block_within: "b < nb \<Longrightarrow> bs * nb \<le> n \<Longrightarrow> b * bs + bs \<le> (n::nat)"
proof -
  assume "b < nb" "bs * nb \<le> n"
  then have "Suc b \<le> nb" by simp
  then have "Suc b * bs \<le> nb * bs" by (rule mult_le_mono1)
  with \<open>bs * nb \<le> n\<close> show ?thesis by (simp add: mult.commute)
qed

lemma ReadAt_ok: "off + n \<le> length f \<Longrightarrow> ReadAt f n off = Some (take n (drop off f))"
  by (simp add: ReadAt_def)

lemma length_WriteAt: "off + length dat \<le> length f \<Longrightarrow> length (WriteAt f dat off) = length f"
  by (simp add: WriteAt_def)

lemma WriteAt_same:
  "off + length dat \<le> length f \<Longrightarrow> take (length dat) (drop off (WriteAt f dat off)) = dat"
  by (simp add: WriteAt_def)

lemma WriteAt_below:
  "off + length dat \<le> length f \<Longrightarrow> off' + n \<le> off \<Longrightarrow>
   take n (drop off' (WriteAt f dat off)) = take n (drop off' f)"
proof -
  assume a: "off + length dat \<le> length f" "off' + n \<le> off"
  have "take n (drop off' (take off f)) = take n (drop off' f)"
    using a by (simp add: drop_take min_def)
  with a show ?thesis by (simp add: WriteAt_def)
qed

lemma WriteAt_above:
  "off + length dat \<le> length f \<Longrightarrow> off + length dat \<le> off' \<Longrightarrow>
   take n (drop off' (WriteAt f dat off)) = take n (drop off' f)"
  by (simp add: WriteAt_def)

lemma WriteAt_id:
  "off + n \<le> length f \<Longrightarrow> WriteAt f (take n (drop off f)) off = f"
proof -
  assume a: "off + n \<le> length f"
  have "take off f @ take n (drop off f) @ drop (off + n) f = f"
    by (metis append_take_drop_id drop_drop add.commute)
  with a show ?thesis by (simp add: WriteAt_def min_def)
qed

lemma blk_WriteAt:
  assumes "length dat = bs" "b * bs + bs \<le> length f"
  shows "take bs (drop (b' * bs) (WriteAt f dat (b * bs))) =
         (if b' = b then dat else take bs (drop (b' * bs) f))"
proof -
  consider "b' = b" | "b' < b" | "b < b'" by linarith
  then show ?thesis
  proof cases
    case 1
    then show ?thesis using assms WriteAt_same [of "b * bs" dat f] by simp
  next
    case 2
    then have "Suc b' * bs \<le> b * bs" by (intro mult_le_mono1) simp
    then have "b' * bs + bs \<le> b * bs" by simp
    with 2 assms show ?thesis by (simp add: WriteAt_below)
  next
    case 3
    then have "Suc b * bs \<le> b' * bs" by (intro mult_le_mono1) simp
    then have "b * bs + length dat \<le> b' * bs" using assms by simp
    with 3 assms show ?thesis by (simp add: WriteAt_above)
  qed
qed

text \<open>Disk operations on a readable block.\<close>

lemma Disk_ReadBlock_ok:
  "\<not> failed d \<Longrightarrow> b < numBlocks d \<Longrightarrow> b * blockSize d + blockSize d \<le> length (fileData d) \<Longrightarrow>
   Disk_ReadBlock d (int b) = (Inr (blk d b), d\<lparr>readCount := readCount d + 1\<rparr>)"
  by (simp add: Disk_ReadBlock_def ReadAt_ok blk_def)

lemma Disk_ReadBlock_failed: "failed d \<Longrightarrow> Disk_ReadBlock d b = (Inl DiskFailed, d)"
  by (simp add: Disk_ReadBlock_def)

lemma Disk_ReadBlock_err: "fst (Disk_ReadBlock d b) = Inl e \<Longrightarrow> snd (Disk_ReadBlock d b) = d"
  by (auto simp: Disk_ReadBlock_def split: if_splits option.splits)

lemma Disk_WriteBlock_ok:
  "\<not> failed d \<Longrightarrow> b < numBlocks d \<Longrightarrow> length dat = blockSize d \<Longrightarrow>
   Disk_WriteBlock d (int b) dat =
     (None, d\<lparr>fileData := WriteAt (fileData d) dat (b * blockSize d), writeCount := writeCount d + 1\<rparr>)"
  by (simp add: Disk_WriteBlock_def)

lemma Disk_WriteBlock_err: "fst (Disk_WriteBlock d b dat) = Some e \<Longrightarrow> snd (Disk_WriteBlock d b dat) = d"
  by (auto simp: Disk_WriteBlock_def split: if_splits)

lemma Disk_WriteBlock_failed: "failed d \<Longrightarrow> Disk_WriteBlock d b dat = (Some DiskFailed, d)"
  by (simp add: Disk_WriteBlock_def)

lemma disks_ReadBlock_err:
  "fst (Disk_ReadBlock (disks a ! i) (int b)) = Inl e \<Longrightarrow> disks_ReadBlock a i b = (Inl e, a)"
  using Disk_ReadBlock_err [of "disks a ! i" "int b" e]
  by (cases "Disk_ReadBlock (disks a ! i) (int b)") (simp add: disks_ReadBlock_def)

lemma disks_WriteBlock_err:
  "fst (Disk_WriteBlock (disks a ! i) (int b) dat) = Some e \<Longrightarrow> disks_WriteBlock a i b dat = (Some e, a)"
  using Disk_WriteBlock_err [of "disks a ! i" "int b" dat e]
  by (cases "Disk_WriteBlock (disks a ! i) (int b) dat") (simp add: disks_WriteBlock_def)

lemma upt_split: "i < n \<Longrightarrow> [0..<n] = [0..<i] @ i # [Suc i..<n]"
proof -
  assume "i < n"
  then have "[0..<n] = [0..<i] @ [i..<n]"
    using upt_add_eq_append [of 0 i "n - i"] by simp
  with \<open>i < n\<close> show ?thesis by (simp add: upt_conv_Cons)
qed

subsection \<open>Argument checks of the facade\<close>

text \<open>
  C9 (as amended). For every array at every level, \<open>WriteBlock\<close> and \<open>ReadBlock\<close> fail
  with \<open>OutOfBounds\<close> whenever the logical block ID is negative or not below the
  capacity; \<open>WriteBlock\<close> fails with \<open>BadBufferSize\<close> whenever the ID is in range and
  the buffer does not have the block size. In each case the array is returned as it
  was: no engine and no disk has been invoked. The ID is checked first, so an
  out-of-range ID with a buffer of the wrong size is reported as \<open>OutOfBounds\<close>.
\<close>

theorem facade_rejects_bad_arguments:
  "(lbid < 0 \<or> lbid \<ge> int (capacity a) \<longrightarrow>
      WriteBlock a sched lbid dat = (Some (OutOfBounds lbid (capacity a)), a) \<and>
      ReadBlock a lbid = (Inl (OutOfBounds lbid (capacity a)), a)) \<and>
   (0 \<le> lbid \<and> lbid < int (capacity a) \<and> length dat \<noteq> arrayBlockSize a \<longrightarrow>
      WriteBlock a sched lbid dat = (Some (BadBufferSize (arrayBlockSize a)), a))"
  by (simp add: WriteBlock_def ReadBlock_def)

subsection \<open>Rebuild: the entry checks\<close>

text \<open>
  C10. \<open>RebuildDisk d\<close> on a level-5 array returns an error and leaves the array as it
  was (contents, counters and failed flags of every disk) when \<open>d\<close> is outside
  \<open>[0, numDisks)\<close> or when disk \<open>d\<close> is not marked failed.
\<close>

theorem rebuild_rejected_leaves_array:
  assumes "level a = RAID5"
    and "d < 0 \<or> d \<ge> int (numDisks a) \<or> \<not> failed (disks a ! nat d)"
  shows "RebuildDisk a d =
          (Some (if d < 0 \<or> d \<ge> int (numDisks a) then InvalidDiskIndex d else NotMarkedFailed d), a)"
  using assms by (auto simp: RebuildDisk_def raid5_rebuildDisk_def IsFailed_def)

subsection \<open>Level 1: the read\<close>

lemma raid1_read_loop_none:
  "(\<forall>j\<in>set is. \<exists>e. fst (Disk_ReadBlock (disks a ! j) (int b)) = Inl e) \<Longrightarrow>
   \<exists>le'. raid1_read_loop a b le is = (Inl (NoReplicaAvailable le'), a)"
proof (induction "is" arbitrary: le)
  case Nil
  show ?case by simp
next
  case (Cons i "is")
  from Cons.prems obtain e where e: "fst (Disk_ReadBlock (disks a ! i) (int b)) = Inl e" by auto
  have rest: "\<forall>j\<in>set is. \<exists>e. fst (Disk_ReadBlock (disks a ! j) (int b)) = Inl e"
    using Cons.prems by simp
  show ?case
    using Cons.IH [OF rest] disks_ReadBlock_err [OF e] by simp
qed

lemma raid1_read_loop_all_flagged:
  "(\<forall>j\<in>set is. failed (disks a ! j)) \<Longrightarrow>
   raid1_read_loop a b le is = (Inl (NoReplicaAvailable le), a)"
  by (induction "is") (simp_all add: IsFailed_def)

lemma raid1_read_loop_first:
  assumes "\<forall>j\<in>set pre. \<exists>e. fst (Disk_ReadBlock (disks a ! j) (int b)) = Inl e"
    and "Disk_ReadBlock (disks a ! i) (int b) = (Inr dat, d')"
  shows "raid1_read_loop a b le (pre @ i # post) = (Inr dat, a\<lparr>disks := (disks a)[i := d']\<rparr>)"
  using assms
proof (induction pre arbitrary: le)
  case Nil
  then have "\<not> failed (disks a ! i)" by (auto simp: Disk_ReadBlock_def)
  with Nil show ?case by (simp add: IsFailed_def disks_ReadBlock_def)
next
  case (Cons j pre)
  from Cons.prems obtain e where e: "fst (Disk_ReadBlock (disks a ! j) (int b)) = Inl e" by auto
  have rest: "\<forall>j\<in>set pre. \<exists>e. fst (Disk_ReadBlock (disks a ! j) (int b)) = Inl e"
    using Cons.prems by simp
  show ?case
    using Cons.IH [OF rest Cons.prems(2)] disks_ReadBlock_err [OF e] by simp
qed

text \<open>
  C8. A level-1 read looks at the disks in increasing index order. If disk \<open>i\<close> is
  the first one that is not marked failed and whose read succeeds (every disk before
  it is marked failed or fails to read), the read returns the data of disk \<open>i\<close>, and
  only the read counter of disk \<open>i\<close> has changed. If no disk yields a successful read,
  the result is a \<open>NoReplicaAvailable\<close> error and the array is unchanged; when every
  disk is marked failed the error wraps no disk error at all: flagged disks are
  skipped, not read.
\<close>

theorem raid1_read_first_live_replica:
  assumes "level a = RAID1" and "0 \<le> lbid" and "lbid < int (capacity a)"
  shows "(i < numDisks a \<and>
          (\<forall>j<i. failed (disks a ! j) \<or> (\<exists>e. fst (Disk_ReadBlock (disks a ! j) lbid) = Inl e)) \<and>
          \<not> failed (disks a ! i) \<and> Disk_ReadBlock (disks a ! i) lbid = (Inr dat, d')
          \<longrightarrow> ReadBlock a lbid = (Inr dat, a\<lparr>disks := (disks a)[i := d']\<rparr>)) \<and>
         ((\<forall>j<numDisks a. failed (disks a ! j) \<or> (\<exists>e. fst (Disk_ReadBlock (disks a ! j) lbid) = Inl e))
          \<longrightarrow> (\<exists>le. ReadBlock a lbid = (Inl (NoReplicaAvailable le), a))) \<and>
         ((\<forall>j<numDisks a. failed (disks a ! j))
          \<longrightarrow> ReadBlock a lbid = (Inl (NoReplicaAvailable None), a))"
proof -
  have R: "ReadBlock a lbid = raid1_read_loop a (nat lbid) None [0..<numDisks a]"
    using assms by (simp add: ReadBlock_def raid1_readBlock_def)
  have fl: "\<And>j. failed (disks a ! j) \<Longrightarrow> \<exists>e. fst (Disk_ReadBlock (disks a ! j) lbid) = Inl e"
    by (simp add: Disk_ReadBlock_failed)
  have lb: "int (nat lbid) = lbid" using assms by simp
  show ?thesis
  proof (intro conjI impI)
    assume h: "i < numDisks a \<and>
          (\<forall>j<i. failed (disks a ! j) \<or> (\<exists>e. fst (Disk_ReadBlock (disks a ! j) lbid) = Inl e)) \<and>
          \<not> failed (disks a ! i) \<and> Disk_ReadBlock (disks a ! i) lbid = (Inr dat, d')"
    then have split: "[0..<numDisks a] = [0..<i] @ i # [Suc i..<numDisks a]"
      by (simp add: upt_split)
    have pre: "\<forall>j\<in>set [0..<i]. \<exists>e. fst (Disk_ReadBlock (disks a ! j) (int (nat lbid))) = Inl e"
      using h fl lb by auto
    show "ReadBlock a lbid = (Inr dat, a\<lparr>disks := (disks a)[i := d']\<rparr>)"
      unfolding R split using raid1_read_loop_first [OF pre] h lb by simp
  next
    assume "\<forall>j<numDisks a. failed (disks a ! j) \<or> (\<exists>e. fst (Disk_ReadBlock (disks a ! j) lbid) = Inl e)"
    then have "\<forall>j\<in>set [0..<numDisks a]. \<exists>e. fst (Disk_ReadBlock (disks a ! j) (int (nat lbid))) = Inl e"
      using fl lb by auto
    from raid1_read_loop_none [OF this] show "\<exists>le. ReadBlock a lbid = (Inl (NoReplicaAvailable le), a)"
      unfolding R .
  next
    assume "\<forall>j<numDisks a. failed (disks a ! j)"
    then have "\<forall>j\<in>set [0..<numDisks a]. failed (disks a ! j)" by simp
    from raid1_read_loop_all_flagged [OF this] show "ReadBlock a lbid = (Inl (NoReplicaAvailable None), a)"
      unfolding R .
  qed
qed

subsection \<open>Level 1: the write\<close>

lemma collect_map:
  "collect (map (\<lambda>i. (i, r i)) sched) (sc, le, fd) =
     (sc + length (filter (\<lambda>i. r i = None) sched),
      (if filter (\<lambda>i. r i \<noteq> None) sched = [] then le
       else r (last (filter (\<lambda>i. r i \<noteq> None) sched))),
      fd @ filter (\<lambda>i. r i \<noteq> None) sched)"
proof (induction sched arbitrary: sc le fd)
  case Nil
  show ?case by simp
next
  case (Cons i sched)
  show ?case
  proof (cases "r i")
    case None
    then show ?thesis using Cons.IH by simp
  next
    case (Some e)
    then show ?thesis using Cons.IH by simp
  qed
qed

lemma perm_filter_length:
  "mset sched = mset [0..<n] \<Longrightarrow> length (filter P sched) = card {i. i < n \<and> P i}"
proof -
  assume p: "mset sched = mset [0..<n]"
  have d: "distinct sched" using p by (metis distinct_upt mset_eq_imp_distinct_iff)
  have s: "set sched = {0..<n}" using p by (metis mset_eq_setD set_upt)
  have "distinct (filter P sched)" using d by simp
  then have "length (filter P sched) = card (set (filter P sched))"
    by (simp only: distinct_card)
  also have "set (filter P sched) = {i. i < n \<and> P i}" using s by auto
  finally show ?thesis .
qed

lemma raid1_writeBlock_outcomes:
  assumes "mset sched = mset [0..<numDisks a]"
  shows "((\<forall>i<numDisks a. write_ok a b dat i) \<and> 0 < numDisks a
            \<longrightarrow> fst (raid1_writeBlock a sched b dat) = None) \<and>
         ((\<exists>i<numDisks a. write_ok a b dat i) \<and> (\<exists>j<numDisks a. \<not> write_ok a b dat j)
            \<longrightarrow> (\<exists>fd. fst (raid1_writeBlock a sched b dat) =
                    Some (DegradedWrite (card {i. i < numDisks a \<and> write_ok a b dat i})
                            (numDisks a) fd) \<and>
                  set fd = {j. j < numDisks a \<and> \<not> write_ok a b dat j} \<and> distinct fd)) \<and>
         ((\<forall>i<numDisks a. \<not> write_ok a b dat i) \<and> 0 < numDisks a
            \<longrightarrow> fst (raid1_writeBlock a sched b dat) =
                    Some (AllReplicasFailed (fst (Disk_WriteBlock (disks a ! last sched) (int b) dat))) \<and>
                  fst (Disk_WriteBlock (disks a ! last sched) (int b) dat) \<noteq> None) \<and>
         disks (snd (raid1_writeBlock a sched b dat)) =
           map (\<lambda>i. snd (Disk_WriteBlock (disks a ! i) (int b) dat)) [0..<numDisks a]"
proof -
  let ?r = "\<lambda>i. fst (Disk_WriteBlock (disks a ! i) (int b) dat)"
  let ?N = "numDisks a"
  let ?a' = "a\<lparr>disks := map (\<lambda>i. snd (Disk_WriteBlock (disks a ! i) (int b) dat)) [0..<?N]\<rparr>"
  let ?oks = "filter (\<lambda>i. ?r i = None) sched"
  let ?bad = "filter (\<lambda>i. ?r i \<noteq> None) sched"
  have C: "collect (map (\<lambda>i. (i, ?r i)) sched) (0, None, []) =
     (length ?oks, (if ?bad = [] then None else ?r (last ?bad)), ?bad)"
    using collect_map [of ?r sched 0 None "[]"] by simp
  have R: "raid1_writeBlock a sched b dat =
     (if length ?oks = 0 then (Some (AllReplicasFailed (if ?bad = [] then None else ?r (last ?bad))), ?a')
      else if length ?oks < ?N then (Some (DegradedWrite (length ?oks) ?N ?bad), ?a')
      else (None, ?a'))"
    unfolding raid1_writeBlock_def Let_def C by simp
  have d: "distinct sched" using assms by (metis distinct_upt mset_eq_imp_distinct_iff)
  have s: "set sched = {0..<?N}" using assms by (metis mset_eq_setD set_upt)
  have lok: "length ?oks = card {i. i < ?N \<and> write_ok a b dat i}"
    using perm_filter_length [OF assms, of "\<lambda>i. ?r i = None"] by (simp add: write_ok_def)
  have lbad: "length ?bad = card {i. i < ?N \<and> \<not> write_ok a b dat i}"
    using perm_filter_length [OF assms, of "\<lambda>i. ?r i \<noteq> None"] by (simp add: write_ok_def)
  have "length sched = ?N" using assms by (metis length_upt mset_eq_length diff_zero)
  then have tot: "length ?oks + length ?bad = ?N"
    using sum_length_filter_compl [of "\<lambda>i. ?r i = None" sched] by simp
  have setbad: "set ?bad = {j. j < ?N \<and> \<not> write_ok a b dat j}"
    using s by (auto simp: write_ok_def)
  have fin: "finite {i. i < ?N \<and> write_ok a b dat i}" "finite {i. i < ?N \<and> \<not> write_ok a b dat i}"
    by simp_all
  have c1: "fst (raid1_writeBlock a sched b dat) = None"
    if h: "(\<forall>i<?N. write_ok a b dat i) \<and> 0 < ?N"
  proof -
    have "{i. i < ?N \<and> \<not> write_ok a b dat i} = {}" using h by auto
    then have "length ?bad = 0" using lbad by simp
    with tot h have "length ?oks = ?N" "0 < length ?oks" by simp_all
    then show ?thesis unfolding R by simp
  qed
  have c2: "\<exists>fd. fst (raid1_writeBlock a sched b dat) =
                    Some (DegradedWrite (card {i. i < ?N \<and> write_ok a b dat i}) ?N fd) \<and>
                  set fd = {j. j < ?N \<and> \<not> write_ok a b dat j} \<and> distinct fd"
    if h: "(\<exists>i<?N. write_ok a b dat i) \<and> (\<exists>j<?N. \<not> write_ok a b dat j)"
  proof -
    have "{i. i < ?N \<and> write_ok a b dat i} \<noteq> {}" "{i. i < ?N \<and> \<not> write_ok a b dat i} \<noteq> {}"
      using h by auto
    then have "0 < length ?oks" "0 < length ?bad"
      using fin unfolding lok lbad by (simp_all only: card_gt_0_iff simp_thms)
    with tot have "length ?oks \<noteq> 0" "length ?oks < ?N" by linarith+
    then have "fst (raid1_writeBlock a sched b dat) = Some (DegradedWrite (length ?oks) ?N ?bad)"
      unfolding R by simp
    moreover have "distinct ?bad" using d by simp
    ultimately show ?thesis
      using lok setbad by (intro exI [of _ ?bad]) (simp only: simp_thms)
  qed
  have c3: "fst (raid1_writeBlock a sched b dat) =
                    Some (AllReplicasFailed (fst (Disk_WriteBlock (disks a ! last sched) (int b) dat))) \<and>
                  fst (Disk_WriteBlock (disks a ! last sched) (int b) dat) \<noteq> None"
    if h: "(\<forall>i<?N. \<not> write_ok a b dat i) \<and> 0 < ?N"
  proof -
    have "{i. i < ?N \<and> write_ok a b dat i} = {}" using h by auto
    then have z: "length ?oks = 0" using lok by simp
    with tot h have ne: "?bad \<noteq> []" by auto
    have bad: "\<forall>i\<in>set sched. ?r i \<noteq> None" using h s by (auto simp: write_ok_def)
    then have all: "?bad = sched" by (intro filter_True) simp
    have "last ?bad \<in> set ?bad" using ne by (rule last_in_set)
    then have l: "?r (last sched) \<noteq> None" unfolding all using bad by blast
    have "fst (raid1_writeBlock a sched b dat) = Some (AllReplicasFailed (?r (last ?bad)))"
      unfolding R using z ne by simp
    with l show ?thesis unfolding all by simp
  qed
  have c4: "disks (snd (raid1_writeBlock a sched b dat)) =
           map (\<lambda>i. snd (Disk_WriteBlock (disks a ! i) (int b) dat)) [0..<?N]"
    unfolding R by simp
  from c1 c2 c3 c4 show ?thesis by blast
qed

text \<open>
  C6 (as amended). A level-1 write, whatever the order in which the results of the
  disks arrive: returns success when every disk's write succeeds; when at least one
  succeeds and at least one fails it returns an error, \<open>DegradedWrite\<close>, carrying the
  number of successes and the indices of exactly the disks whose write failed; when
  every disk's write fails it returns the error \<open>AllReplicasFailed\<close> wrapping the error
  of the disk that reported last. In every case each disk is left as
  its own write leaves it, so the data is on every disk whose write succeeded.
\<close>

theorem raid1_write_outcomes:
  assumes "level a = RAID1" and "0 \<le> lbid" and "lbid < int (capacity a)"
    and "length dat = arrayBlockSize a"
    and "mset sched = mset [0..<numDisks a]"
  shows "((\<forall>i<numDisks a. write_ok a (nat lbid) dat i) \<and> 0 < numDisks a
            \<longrightarrow> fst (WriteBlock a sched lbid dat) = None) \<and>
         ((\<exists>i<numDisks a. write_ok a (nat lbid) dat i) \<and> (\<exists>j<numDisks a. \<not> write_ok a (nat lbid) dat j)
            \<longrightarrow> (\<exists>fd. fst (WriteBlock a sched lbid dat) =
                    Some (DegradedWrite (card {i. i < numDisks a \<and> write_ok a (nat lbid) dat i})
                            (numDisks a) fd) \<and>
                  set fd = {j. j < numDisks a \<and> \<not> write_ok a (nat lbid) dat j} \<and> distinct fd)) \<and>
         ((\<forall>i<numDisks a. \<not> write_ok a (nat lbid) dat i) \<and> 0 < numDisks a
            \<longrightarrow> fst (WriteBlock a sched lbid dat) =
                    Some (AllReplicasFailed (fst (Disk_WriteBlock (disks a ! last sched) lbid dat))) \<and>
                  fst (Disk_WriteBlock (disks a ! last sched) lbid dat) \<noteq> None) \<and>
         disks (snd (WriteBlock a sched lbid dat)) =
           map (\<lambda>i. snd (Disk_WriteBlock (disks a ! i) lbid dat)) [0..<numDisks a]"
proof -
  obtain b where lb: "lbid = int b" using assms(2) by (metis nonneg_int_cases)
  have W: "WriteBlock a sched (int b) dat = raid1_writeBlock a sched b dat"
    using assms unfolding lb by (simp add: WriteBlock_def)
  show ?thesis
    unfolding lb W nat_int by (rule raid1_writeBlock_outcomes [OF assms(5)])
qed

theorem facade_rejects_bad_arguments_witness:
  "WriteBlock stripe_pair [] (- 1) [7] = (Some (OutOfBounds (- 1) 4), stripe_pair) \<and>
   ReadBlock stripe_pair 4 = (Inl (OutOfBounds 4 4), stripe_pair) \<and>
   WriteBlock stripe_pair [] 3 [7, 7] = (Some (BadBufferSize 1), stripe_pair)"
proof -
  have c: "capacity stripe_pair = 4" "arrayBlockSize stripe_pair = 1"
    by (simp_all add: stripe_pair_def array_of_def)
  show ?thesis
    using facade_rejects_bad_arguments [of "- 1" stripe_pair "[]" "[7]"]
      facade_rejects_bad_arguments [of 4 stripe_pair "[]" "[7]"]
      facade_rejects_bad_arguments [of 3 stripe_pair "[]" "[7, 7]"]
    by (simp add: c)
qed

text \<open>
  C9 as stated fails where both checks apply: a write to block \<open>-1\<close> with a buffer of
  two bytes, on an array of one-byte blocks, is reported as \<open>OutOfBounds\<close>, not as
  \<open>BadBufferSize\<close>.
\<close>

theorem bad_size_out_of_range_counterexample:
  "length [7, 7 :: byte] \<noteq> arrayBlockSize stripe_pair \<and>
   fst (WriteBlock stripe_pair [] (- 1) [7, 7]) = Some (OutOfBounds (- 1) 4) \<and>
   fst (WriteBlock stripe_pair [] (- 1) [7, 7]) \<noteq> Some (BadBufferSize (arrayBlockSize stripe_pair))"
  by (simp add: WriteBlock_def stripe_pair_def array_of_def)

theorem rebuild_rejected_leaves_array_witness:
  "RebuildDisk parity3_failed1 3 = (Some (InvalidDiskIndex 3), parity3_failed1) \<and>
   RebuildDisk parity3_failed1 (- 1) = (Some (InvalidDiskIndex (- 1)), parity3_failed1) \<and>
   RebuildDisk parity3_failed1 2 = (Some (NotMarkedFailed 2), parity3_failed1)"
proof -
  have l: "level parity3_failed1 = RAID5" and n: "numDisks parity3_failed1 = 3"
    and f: "\<not> failed (disks parity3_failed1 ! nat 2)"
    by (simp_all add: parity3_failed1_def array_of_def disk_of_def)
  show ?thesis
    using rebuild_rejected_leaves_array [OF l, of 3] rebuild_rejected_leaves_array [OF l, of "- 1"]
      rebuild_rejected_leaves_array [OF l, of 2] f
    by (simp add: n)
qed

theorem raid1_read_first_live_replica_witness:
  "ReadBlock mirror_degraded 0 =
     (Inr [5], mirror_degraded\<lparr>disks := (disks mirror_degraded)
         [1 := (disk_of [5, 6] False)\<lparr>readCount := 1\<rparr>]\<rparr>) \<and>
   (\<exists>le. ReadBlock (array_of RAID1 2 [disk_of [0, 0] True, disk_of [5] False]) 1 =
      (Inl (NoReplicaAvailable le), array_of RAID1 2 [disk_of [0, 0] True, disk_of [5] False])) \<and>
   ReadBlock (array_of RAID1 2 [disk_of [0, 0] True, disk_of [5, 6] True]) 1 =
      (Inl (NoReplicaAvailable None), array_of RAID1 2 [disk_of [0, 0] True, disk_of [5, 6] True])"
proof -
  let ?B = "array_of RAID1 2 [disk_of [0, 0] True, disk_of [5] False]"
  let ?C = "array_of RAID1 2 [disk_of [0, 0] True, disk_of [5, 6] True]"
  have a: "level mirror_degraded = RAID1" "(0::int) \<le> 0" "0 < int (capacity mirror_degraded)"
    by (simp_all add: mirror_degraded_def array_of_def)
  have b: "level ?B = RAID1" "(0::int) \<le> 1" "1 < int (capacity ?B)"
    by (simp_all add: array_of_def)
  have c: "level ?C = RAID1" "(0::int) \<le> 1" "1 < int (capacity ?C)"
    by (simp_all add: array_of_def)
  have a1: "(1::nat) < numDisks mirror_degraded \<and>
      (\<forall>j<1. failed (disks mirror_degraded ! j) \<or>
         (\<exists>e. fst (Disk_ReadBlock (disks mirror_degraded ! j) 0) = Inl e)) \<and>
      \<not> failed (disks mirror_degraded ! 1) \<and>
      Disk_ReadBlock (disks mirror_degraded ! 1) 0 = (Inr [5], (disk_of [5, 6] False)\<lparr>readCount := 1\<rparr>)"
    by (simp add: mirror_degraded_def array_of_def disk_of_def Disk_ReadBlock_def ReadAt_def)
  have b1: "\<forall>j<numDisks ?B. failed (disks ?B ! j) \<or> (\<exists>e. fst (Disk_ReadBlock (disks ?B ! j) 1) = Inl e)"
    by (auto simp: array_of_def disk_of_def Disk_ReadBlock_def ReadAt_def less_Suc_eq numeral_2_eq_2)
  have c1: "\<forall>j<numDisks ?C. failed (disks ?C ! j)"
    by (auto simp: array_of_def disk_of_def less_Suc_eq numeral_2_eq_2)
  show ?thesis
    using raid1_read_first_live_replica [OF a, of 1 "[5]" "(disk_of [5, 6] False)\<lparr>readCount := 1\<rparr>"]
      raid1_read_first_live_replica [OF b, of 0 "[]" "disk_of [] False"]
      raid1_read_first_live_replica [OF c, of 0 "[]" "disk_of [] False"]
      a1 b1 c1
    by blast
qed

text \<open>
  C6 as stated fails: on a mirror of two disks whose disk 0 is marked failed, the write
  succeeds on disk 1 and fails on disk 0, and the operation returns an error (the
  degraded-write error), not success.
\<close>

theorem degraded_write_is_error_counterexample:
  "write_ok mirror_degraded 0 [9] 1 \<and> \<not> write_ok mirror_degraded 0 [9] 0 \<and>
   fst (WriteBlock mirror_degraded [0, 1] 0 [9]) = Some (DegradedWrite 1 2 [0]) \<and>
   fst (WriteBlock mirror_degraded [0, 1] 0 [9]) \<noteq> None"
  by code_simp

theorem raid1_write_outcomes_witness:
  "fst (WriteBlock (array_of RAID1 2 [disk_of [0, 0] False, disk_of [5, 6] False]) [1, 0] 0 [9]) = None \<and>
   (\<exists>fd. fst (WriteBlock mirror_degraded [1, 0] 0 [9]) = Some (DegradedWrite 1 2 fd) \<and> set fd = {0}) \<and>
   fst (WriteBlock (array_of RAID1 2 [disk_of [0, 0] True, disk_of [5, 6] True]) [1, 0] 0 [9]) =
     Some (AllReplicasFailed (Some DiskFailed)) \<and>
   map fileData (disks (snd (WriteBlock mirror_degraded [1, 0] 0 [9]))) = [[0, 0], [9, 6]]"
proof -
  let ?A = "array_of RAID1 2 [disk_of [0, 0] False, disk_of [5, 6] False]"
  let ?B = "mirror_degraded"
  let ?C = "array_of RAID1 2 [disk_of [0, 0] True, disk_of [5, 6] True]"
  have two: "\<And>i::nat. i < 2 \<longleftrightarrow> i = 0 \<or> i = 1" by auto
  have p: "mset [1, 0] = mset [0..<2::nat]" by (simp add: upt_rec add_mset_commute)
  have hA: "level ?A = RAID1" "(0::int) \<le> 0" "0 < int (capacity ?A)" "length [9::byte] = arrayBlockSize ?A"
    "numDisks ?A = 2" by (simp_all add: array_of_def)
  have hB: "level ?B = RAID1" "0 < int (capacity ?B)" "length [9::byte] = arrayBlockSize ?B"
    "numDisks ?B = 2" by (simp_all add: mirror_degraded_def array_of_def)
  have hC: "level ?C = RAID1" "0 < int (capacity ?C)" "length [9::byte] = arrayBlockSize ?C"
    "numDisks ?C = 2" by (simp_all add: array_of_def)
  have wa: "write_ok ?A (nat 0) [9] 0" "write_ok ?A (nat 0) [9] 1" by code_simp+
  have wb: "\<not> write_ok ?B (nat 0) [9] 0" "write_ok ?B (nat 0) [9] 1" by code_simp+
  have wc: "\<not> write_ok ?C (nat 0) [9] 0" "\<not> write_ok ?C (nat 0) [9] 1" by code_simp+
  have ec: "fst (Disk_WriteBlock (disks ?C ! 0) 0 [9]) = Some DiskFailed"
    "fst (Disk_WriteBlock (disks ?C ! 1) 0 [9]) = Some DiskFailed" by code_simp+
  have db: "map fileData (map (\<lambda>i. snd (Disk_WriteBlock (disks ?B ! i) 0 [9])) [0..<2]) = [[0, 0], [9, 6]]"
    by code_simp
  note TA = raid1_write_outcomes [of ?A 0 "[9]" "[1, 0]", OF hA(1,2,3,4), unfolded hA(5), OF p]
  note TB = raid1_write_outcomes [of ?B 0 "[9]" "[1, 0]", OF hB(1) hA(2) hB(2,3), unfolded hB(4), OF p]
  note TC = raid1_write_outcomes [of ?C 0 "[9]" "[1, 0]", OF hC(1) hA(2) hC(2,3), unfolded hC(4), OF p]
  have A: "fst (WriteBlock ?A [1, 0] 0 [9]) = None"
    using TA wa by (simp add: two)
  have sb: "{i. i < 2 \<and> write_ok ?B (nat 0) [9] i} = {1}" "{j. j < 2 \<and> \<not> write_ok ?B (nat 0) [9] j} = {0}"
    using wb by (auto simp: two)
  have "(\<exists>i<2. write_ok ?B (nat 0) [9] i) \<and> (\<exists>j<2. \<not> write_ok ?B (nat 0) [9] j)"
    using wb by (auto simp: two)
  with TB have "\<exists>fd. fst (WriteBlock ?B [1, 0] 0 [9]) =
       Some (DegradedWrite (card {i. i < 2 \<and> write_ok ?B (nat 0) [9] i}) 2 fd) \<and>
       set fd = {j. j < 2 \<and> \<not> write_ok ?B (nat 0) [9] j} \<and> distinct fd"
    by blast
  then have B: "\<exists>fd. fst (WriteBlock ?B [1, 0] 0 [9]) = Some (DegradedWrite 1 2 fd) \<and> set fd = {0}"
    unfolding sb by auto
  have "(\<forall>i<2. \<not> write_ok ?C (nat 0) [9] i) \<and> (0::nat) < 2"
    using wc by (auto simp: two)
  with TC have "fst (WriteBlock ?C [1, 0] 0 [9]) =
       Some (AllReplicasFailed (fst (Disk_WriteBlock (disks ?C ! last [1, 0]) 0 [9])))"
    by blast
  then have C: "fst (WriteBlock ?C [1, 0] 0 [9]) = Some (AllReplicasFailed (Some DiskFailed))"
    using ec by simp
  have D: "map fileData (disks (snd (WriteBlock ?B [1, 0] 0 [9]))) = [[0, 0], [9, 6]]"
    using TB db by simp
  from A B C D show ?thesis by blast
qed

lemma uncounted_disk_fields [simp]:
  "fileData (uncounted_disk d) = fileData d" "blockSize (uncounted_disk d) = blockSize d"
  "numBlocks (uncounted_disk d) = numBlocks d" "failed (uncounted_disk d) = failed d"
  "path (uncounted_disk d) = path d"
  by (simp_all add: uncounted_disk_def)

lemma uncounted_disk_eqD:
  assumes "uncounted_disk d = uncounted_disk d'"
  shows "fileData d = fileData d'" "blockSize d = blockSize d'" "numBlocks d = numBlocks d'"
    "failed d = failed d'" "blk d b = blk d' b"
proof -
  show "fileData d = fileData d'" using arg_cong [OF assms, of fileData] by simp
  moreover show "blockSize d = blockSize d'" using arg_cong [OF assms, of blockSize] by simp
  ultimately show "blk d b = blk d' b" by (simp add: blk_def)
  show "numBlocks d = numBlocks d'" using arg_cong [OF assms, of numBlocks] by simp
  show "failed d = failed d'" using arg_cong [OF assms, of failed] by simp
qed

lemma uncounted_disk_counters [simp]:
  "uncounted_disk (d\<lparr>readCount := r\<rparr>) = uncounted_disk d"
  "uncounted_disk (d\<lparr>writeCount := w\<rparr>) = uncounted_disk d"
  by (simp_all add: uncounted_disk_def)

lemma uncounted_fields [simp]:
  "level (uncounted a) = level a" "numDisks (uncounted a) = numDisks a"
  "capacity (uncounted a) = capacity a" "arrayBlockSize (uncounted a) = arrayBlockSize a"
  "length (disks (uncounted a)) = length (disks a)"
  by (simp_all add: uncounted_def)

lemma uncounted_eqD:
  assumes "uncounted a = uncounted b"
  shows "level a = level b" "numDisks a = numDisks b" "capacity a = capacity b"
    "arrayBlockSize a = arrayBlockSize b" "length (disks a) = length (disks b)"
proof -
  show "level a = level b" using arg_cong [OF assms, of level] by simp
  show "numDisks a = numDisks b" using arg_cong [OF assms, of numDisks] by simp
  show "capacity a = capacity b" using arg_cong [OF assms, of capacity] by simp
  show "arrayBlockSize a = arrayBlockSize b" using arg_cong [OF assms, of arrayBlockSize] by simp
  show "length (disks a) = length (disks b)"
    using arg_cong [OF assms, of "\<lambda>x. length (disks x)"] by simp
qed

lemma uncounted_nth:
  assumes "uncounted a = uncounted b" and "i < length (disks b)"
  shows "uncounted_disk (disks a ! i) = uncounted_disk (disks b ! i)"
proof -
  have l: "length (disks a) = length (disks b)" using assms(1) by (rule uncounted_eqD)
  have "map uncounted_disk (disks a) = map uncounted_disk (disks b)"
    using arg_cong [OF assms(1), of disks] by (simp add: uncounted_def)
  then have "map uncounted_disk (disks a) ! i = map uncounted_disk (disks b) ! i" by simp
  then show ?thesis using assms(2) l by simp
qed

lemma uncounted_view:
  assumes "uncounted a = uncounted b" and "i < length (disks b)"
  shows "failed (disks a ! i) = failed (disks b ! i)"
    and "numBlocks (disks a ! i) = numBlocks (disks b ! i)"
    and "blockSize (disks a ! i) = blockSize (disks b ! i)"
    and "fileData (disks a ! i) = fileData (disks b ! i)"
    and "block_at a i s = block_at b i s"
  using uncounted_disk_eqD [OF uncounted_nth [OF assms]] by (simp_all add: block_at_def)

lemma uncounted_readable:
  "uncounted a = uncounted b \<Longrightarrow> readable a i s = readable b i s"
  unfolding readable_def
  using uncounted_view [of a b i] uncounted_eqD(5) [of a b] by auto

lemma uncounted_writable:
  "uncounted a = uncounted b \<Longrightarrow> writable a i s dat = writable b i s dat"
  unfolding writable_def
  using uncounted_view [of a b i] uncounted_eqD(5) [of a b] by auto

lemma uncounted_diskI:
  "fileData d = fileData d' \<Longrightarrow> path d = path d' \<Longrightarrow> blockSize d = blockSize d' \<Longrightarrow>
   numBlocks d = numBlocks d' \<Longrightarrow> failed d = failed d' \<Longrightarrow> Disk.more d = Disk.more d' \<Longrightarrow>
   uncounted_disk d = uncounted_disk d'"
  by (cases d, cases d') (simp add: uncounted_disk_def)

lemma uncounted_disk_path:
  "uncounted_disk d = uncounted_disk d' \<Longrightarrow> path d = path d' \<and> Disk.more d = Disk.more d'"
  by (cases d, cases d') (simp add: uncounted_disk_def)

lemma uncountedI:
  assumes "level a = level b" "numDisks a = numDisks b" "capacity a = capacity b"
    "arrayBlockSize a = arrayBlockSize b" "RAIDArray.more a = RAIDArray.more b"
    "length (disks a) = length (disks b)"
    "\<And>i. i < length (disks b) \<Longrightarrow> uncounted_disk (disks a ! i) = uncounted_disk (disks b ! i)"
  shows "uncounted a = uncounted b"
proof -
  have "map uncounted_disk (disks a) = map uncounted_disk (disks b)"
    using assms(6,7) by (intro nth_equalityI) simp_all
  then show ?thesis
    using assms(1-5) by (cases a, cases b) (simp add: uncounted_def)
qed

lemma uncounted_more:
  "uncounted a = uncounted b \<Longrightarrow> RAIDArray.more a = RAIDArray.more b"
  by (cases a, cases b) (simp add: uncounted_def)

lemma uncounted_update:
  assumes "uncounted_disk d' = uncounted_disk (disks a ! i)"
  shows "uncounted (a\<lparr>disks := (disks a)[i := d']\<rparr>) = uncounted a"
proof (rule uncountedI)
  fix j assume "j < length (disks a)"
  then show "uncounted_disk (disks (a\<lparr>disks := (disks a)[i := d']\<rparr>) ! j) = uncounted_disk (disks a ! j)"
    using assms by (cases "j = i") simp_all
qed simp_all

lemma uncounted_put:
  assumes "uncounted a = uncounted b"
  shows "uncounted (put a i s dat) = uncounted (put b i s dat)"
proof (rule uncountedI)
  have l: "length (disks a) = length (disks b)" using assms by (rule uncounted_eqD)
  show "length (disks (put a i s dat)) = length (disks (put b i s dat))"
    using l by (simp add: put_def)
  fix j assume j: "j < length (disks (put b i s dat))"
  then have jb: "j < length (disks b)" by (simp add: put_def)
  note v = uncounted_view [OF assms jb] uncounted_disk_path [OF uncounted_nth [OF assms jb]]
  show "uncounted_disk (disks (put a i s dat) ! j) = uncounted_disk (disks (put b i s dat) ! j)"
  proof (cases "j = i")
    case True
    then show ?thesis using jb l v by (intro uncounted_diskI) (simp_all add: put_def)
  next
    case False
    then show ?thesis using uncounted_nth [OF assms jb] by (simp add: put_def)
  qed
qed (use uncounted_eqD [OF assms] uncounted_more [OF assms] in \<open>simp_all add: put_def\<close>)

subsection \<open>Single reads and writes through the array\<close>

lemma uncounted_disks_ReadBlock [simp]: "uncounted (snd (disks_ReadBlock a i b)) = uncounted a"
proof -
  have "uncounted_disk (snd (Disk_ReadBlock (disks a ! i) (int b))) = uncounted_disk (disks a ! i)"
    by (simp add: Disk_ReadBlock_def split: option.split)
  then show ?thesis
    by (cases "Disk_ReadBlock (disks a ! i) (int b)") (simp add: disks_ReadBlock_def uncounted_update)
qed

lemma disks_ReadBlock_readable:
  assumes "uncounted a = uncounted a0" and "readable a0 i b"
  shows "fst (disks_ReadBlock a i b) = Inr (block_at a0 i b)"
proof -
  have r: "readable a i b" using uncounted_readable [OF assms(1)] assms(2) by simp
  have "block_at a i b = block_at a0 i b"
    using assms by (intro uncounted_view) (simp_all add: readable_def)
  with r show ?thesis
    by (simp add: disks_ReadBlock_def readable_def Disk_ReadBlock_ok block_at_def)
qed

lemma disks_ReadBlock_cases:
  obtains (ok) dat a' where "disks_ReadBlock a i b = (Inr dat, a')" "uncounted a' = uncounted a"
  | (err) e where "disks_ReadBlock a i b = (Inl e, a)"
proof (cases "fst (Disk_ReadBlock (disks a ! i) (int b))")
  case (Inl e)
  from disks_ReadBlock_err [OF this] show ?thesis by (rule err)
next
  case (Inr dat)
  have "disks_ReadBlock a i b = (fst (disks_ReadBlock a i b), snd (disks_ReadBlock a i b))" by simp
  moreover have "fst (disks_ReadBlock a i b) = Inr dat"
    using Inr by (cases "Disk_ReadBlock (disks a ! i) (int b)") (simp add: disks_ReadBlock_def)
  ultimately show ?thesis using ok [of dat "snd (disks_ReadBlock a i b)"] by simp
qed

lemma Disk_ReadBlock_Inr:
  assumes "fst (Disk_ReadBlock d (int b)) = Inr dat"
  shows "\<not> failed d" "b < numBlocks d"
    "b * blockSize d + blockSize d \<le> length (fileData d)" "dat = blk d b"
proof -
  show f: "\<not> failed d" using assms by (auto simp: Disk_ReadBlock_def)
  show n: "b < numBlocks d" using assms f by (auto simp: Disk_ReadBlock_def split: if_splits)
  have r: "fst (case ReadAt (fileData d) (blockSize d) (b * blockSize d) of
              None \<Rightarrow> (Inl (ReadError (int b)), d)
            | Some dat \<Rightarrow> (Inr dat, d\<lparr>readCount := readCount d + 1\<rparr>)) = Inr dat"
    using assms f n by (simp add: Disk_ReadBlock_def)
  then show l: "b * blockSize d + blockSize d \<le> length (fileData d)"
    by (cases "b * blockSize d + blockSize d \<le> length (fileData d)") (simp_all add: ReadAt_def)
  with r show "dat = blk d b" by (simp add: ReadAt_def blk_def)
qed

lemma disks_ReadBlock_Inr_readable:
  assumes "disks_ReadBlock a i b = (Inr dat, a')" and "i < length (disks a)"
  shows "readable a i b \<and> dat = block_at a i b"
proof -
  have "fst (Disk_ReadBlock (disks a ! i) (int b)) = Inr dat"
    using assms(1) by (cases "Disk_ReadBlock (disks a ! i) (int b)") (simp add: disks_ReadBlock_def)
  from Disk_ReadBlock_Inr [OF this] assms(2) show ?thesis
    by (simp add: readable_def block_at_def)
qed

lemma uncounted_update2:
  "uncounted_disk d' = uncounted_disk d'' \<Longrightarrow>
   uncounted (a\<lparr>disks := (disks a)[i := d']\<rparr>) = uncounted (a\<lparr>disks := (disks a)[i := d'']\<rparr>)"
  by (simp add: uncounted_def map_update)

lemma disks_WriteBlock_writable:
  assumes "uncounted a = uncounted a0" and "writable a0 i b dat"
  shows "fst (disks_WriteBlock a i b dat) = None"
    and "uncounted (snd (disks_WriteBlock a i b dat)) = uncounted (put a0 i b dat)"
proof -
  let ?d = "disks a ! i"
  let ?f = "WriteAt (fileData ?d) dat (b * blockSize ?d)"
  have w: "writable a i b dat" using uncounted_writable [OF assms(1)] assms(2) by simp
  then have D: "Disk_WriteBlock ?d (int b) dat = (None, ?d\<lparr>fileData := ?f, writeCount := writeCount ?d + 1\<rparr>)"
    unfolding writable_def by (intro Disk_WriteBlock_ok) simp_all
  then have W: "disks_WriteBlock a i b dat =
      (None, a\<lparr>disks := (disks a)[i := ?d\<lparr>fileData := ?f, writeCount := writeCount ?d + 1\<rparr>]\<rparr>)"
    by (simp add: disks_WriteBlock_def)
  show "fst (disks_WriteBlock a i b dat) = None" unfolding W by simp
  have "uncounted_disk (?d\<lparr>fileData := ?f, writeCount := writeCount ?d + 1\<rparr>) = uncounted_disk (?d\<lparr>fileData := ?f\<rparr>)"
    by (simp add: uncounted_disk_def)
  from uncounted_update2 [OF this]
  have "uncounted (snd (disks_WriteBlock a i b dat)) = uncounted (put a i b dat)"
    unfolding W put_def by simp
  then show "uncounted (snd (disks_WriteBlock a i b dat)) = uncounted (put a0 i b dat)"
    using uncounted_put [OF assms(1)] by simp
qed

lemma disks_WriteBlock_cases:
  obtains (ok) a' where "disks_WriteBlock a i b dat = (None, a')" "writable a i b dat \<or> length (disks a) \<le> i"
  | (err) e where "disks_WriteBlock a i b dat = (Some e, a)"
proof (cases "fst (Disk_WriteBlock (disks a ! i) (int b) dat)")
  case (Some e)
  from disks_WriteBlock_err [OF this] show ?thesis by (rule err)
next
  case None
  then have "\<not> failed (disks a ! i)" "b < numBlocks (disks a ! i)" "length dat = blockSize (disks a ! i)"
    by (simp_all add: Disk_WriteBlock_def split: if_splits)
  then have "writable a i b dat \<or> length (disks a) \<le> i"
    by (cases "i < length (disks a)") (simp_all add: writable_def)
  moreover have "fst (disks_WriteBlock a i b dat) = None"
    using None by (cases "Disk_WriteBlock (disks a ! i) (int b) dat") (simp add: disks_WriteBlock_def)
  moreover have "disks_WriteBlock a i b dat = (fst (disks_WriteBlock a i b dat), snd (disks_WriteBlock a i b dat))"
    by simp
  ultimately show ?thesis
    using ok [of "snd (disks_WriteBlock a i b dat)"] by simp
qed

subsection \<open>Overwriting a block\<close>

lemma put_fields [simp]:
  "level (put a i b dat) = level a" "numDisks (put a i b dat) = numDisks a"
  "capacity (put a i b dat) = capacity a" "arrayBlockSize (put a i b dat) = arrayBlockSize a"
  "length (disks (put a i b dat)) = length (disks a)"
  by (simp_all add: put_def)

lemma put_disk_fields [simp]:
  "failed (disks (put a i b dat) ! j) = failed (disks a ! j)"
  "numBlocks (disks (put a i b dat) ! j) = numBlocks (disks a ! j)"
  "blockSize (disks (put a i b dat) ! j) = blockSize (disks a ! j)"
proof -
  show "failed (disks (put a i b dat) ! j) = failed (disks a ! j)"
    by (cases "j = i"; cases "i < length (disks a)") (simp_all add: put_def not_less list_update_beyond)
  show "numBlocks (disks (put a i b dat) ! j) = numBlocks (disks a ! j)"
    by (cases "j = i"; cases "i < length (disks a)") (simp_all add: put_def not_less list_update_beyond)
  show "blockSize (disks (put a i b dat) ! j) = blockSize (disks a ! j)"
    by (cases "j = i"; cases "i < length (disks a)") (simp_all add: put_def not_less list_update_beyond)
qed

lemma put_length_file:
  assumes "i < length (disks a)" "length dat = blockSize (disks a ! i)"
    "b * blockSize (disks a ! i) + blockSize (disks a ! i) \<le> length (fileData (disks a ! i))"
  shows "length (fileData (disks (put a i b dat) ! j)) = length (fileData (disks a ! j))"
  using assms by (cases "j = i") (simp_all add: put_def length_WriteAt)

lemma block_at_put:
  assumes "i < length (disks a)" "length dat = blockSize (disks a ! i)"
    "b * blockSize (disks a ! i) + blockSize (disks a ! i) \<le> length (fileData (disks a ! i))"
  shows "block_at (put a i b dat) j b' = (if j = i \<and> b' = b then dat else block_at a j b')"
proof (cases "j = i")
  case True
  then show ?thesis
    using assms blk_WriteAt [of dat "blockSize (disks a ! i)" b "fileData (disks a ! i)" b']
    by (simp add: block_at_def blk_def put_def)
next
  case False
  then show ?thesis by (simp add: block_at_def put_def)
qed

lemma put_same:
  assumes "i < length (disks a)"
    "b * blockSize (disks a ! i) + blockSize (disks a ! i) \<le> length (fileData (disks a ! i))"
  shows "put a i b (block_at a i b) = a"
  using assms by (simp add: put_def block_at_def blk_def WriteAt_id)

subsection \<open>Reads change counters only\<close>

lemma uncounted_parity_loop [simp]:
  "uncounted (snd (parity_loop a s off p acc is)) = uncounted a"
proof (induction "is" arbitrary: a acc)
  case Nil
  show ?case by simp
next
  case (Cons i "is")
  let ?j = "if p \<le> i then i + 1 else i"
  show ?case
  proof (cases rule: disks_ReadBlock_cases [of a ?j s])
    case (ok dat a')
    then show ?thesis using Cons.IH [of a'] Cons.IH [of a] by (simp add: Let_def)
  next
    case (err e)
    then show ?thesis using Cons.IH [of a] by (simp add: Let_def)
  qed
qed

lemma uncounted_reconstruct_loop [simp]:
  "uncounted (snd (reconstruct_loop a s m p acc is)) = uncounted a"
proof (induction "is" arbitrary: a acc)
  case Nil
  show ?case by simp
next
  case (Cons i "is")
  show ?case
  proof (cases rule: disks_ReadBlock_cases [of a i s])
    case (ok dat a')
    then show ?thesis using Cons.IH [of a'] Cons.IH [of a] by simp
  next
    case (err e)
    then show ?thesis using Cons.IH [of a] by simp
  qed
qed

lemma uncounted_reconstructBlock [simp]:
  "uncounted (snd (reconstructBlock a s m p)) = uncounted a"
proof (cases rule: disks_ReadBlock_cases [of a p s])
  case (ok dat a')
  then show ?thesis by (simp add: reconstructBlock_def)
next
  case (err e)
  then show ?thesis by (simp add: reconstructBlock_def)
qed

lemma uncounted_read_or_reconstruct:
  "uncounted (snd (case disks_ReadBlock a i s of
       (Inr dat, a') \<Rightarrow> (Inr dat, a')
     | (Inl err, a') \<Rightarrow> reconstructBlock a' s m p)) = uncounted a"
proof (cases rule: disks_ReadBlock_cases [of a i s])
  case (ok dat a')
  then show ?thesis by simp
next
  case (err e)
  then show ?thesis by simp
qed

lemma uncounted_raid5_readBlock [simp]:
  "uncounted (snd (raid5_readBlock a lbid)) = uncounted a"
  by (simp add: raid5_readBlock_def Let_def uncounted_read_or_reconstruct)

lemma uncounted_raid1_read_loop [simp]:
  "uncounted (snd (raid1_read_loop a b le is)) = uncounted a"
proof (induction "is" arbitrary: a le)
  case Nil
  show ?case by simp
next
  case (Cons i "is")
  show ?case
  proof (cases rule: disks_ReadBlock_cases [of a i b])
    case (ok dat a')
    then show ?thesis using Cons.IH [of a] by simp
  next
    case (err e)
    then show ?thesis using Cons.IH [of a] by simp
  qed
qed

lemma uncounted_ReadBlock [simp]: "uncounted (snd (ReadBlock a lbid)) = uncounted a"
  by (simp add: ReadBlock_def raid0_readBlock_def raid1_readBlock_def Let_def)

lemma uncounted_rebuildParity_loop [simp]:
  "uncounted (snd (rebuildParity_loop a s p acc is)) = uncounted a"
proof (induction "is" arbitrary: a acc)
  case Nil
  show ?case by simp
next
  case (Cons i "is")
  show ?case
  proof (cases rule: disks_ReadBlock_cases [of a i s])
    case (ok dat a')
    then show ?thesis using Cons.IH [of a'] Cons.IH [of a] by simp
  next
    case (err e)
    then show ?thesis using Cons.IH [of a] by simp
  qed
qed

subsection \<open>Well-formed arrays\<close>

lemma wf_disk_nth:
  assumes "wf_array a" and "i < numDisks a"
  shows "blockSize (disks a ! i) = arrayBlockSize a" "numBlocks (disks a ! i) = blocksPerDisk a"
    "arrayBlockSize a * blocksPerDisk a \<le> length (fileData (disks a ! i))"
    "i < length (disks a)"
proof -
  have "wf_disk (arrayBlockSize a) (blocksPerDisk a) (disks a ! i)" and l: "i < length (disks a)"
    using assms by (simp_all add: wf_array_def list_all_length)
  then show "blockSize (disks a ! i) = arrayBlockSize a" "numBlocks (disks a ! i) = blocksPerDisk a"
    "arrayBlockSize a * blocksPerDisk a \<le> length (fileData (disks a ! i))"
    by (simp_all add: wf_disk_def)
  show "i < length (disks a)" by (rule l)
qed

lemma wf_block_within:
  assumes "wf_array a" and "i < numDisks a" and "s < blocksPerDisk a"
  shows "s * blockSize (disks a ! i) + blockSize (disks a ! i) \<le> length (fileData (disks a ! i))"
  using block_within [OF assms(3) wf_disk_nth(3) [OF assms(1,2)]] wf_disk_nth(1) [OF assms(1,2)]
  by simp

lemma wf_readable:
  assumes "wf_array a" and "i < numDisks a" and "s < blocksPerDisk a" and "\<not> failed (disks a ! i)"
  shows "readable a i s"
  using wf_block_within [OF assms(1-3)] wf_disk_nth [OF assms(1,2)] assms(3,4)
  by (simp add: readable_def)

lemma wf_writable:
  assumes "wf_array a" and "i < numDisks a" and "s < blocksPerDisk a" and "\<not> failed (disks a ! i)"
    and "length dat = arrayBlockSize a"
  shows "writable a i s dat"
  using wf_disk_nth [OF assms(1,2)] assms(3,4,5)
  by (simp add: writable_def)

lemma length_block_at:
  assumes "wf_array a" and "i < numDisks a" and "s < blocksPerDisk a"
  shows "length (block_at a i s) = arrayBlockSize a"
  using wf_block_within [OF assms] wf_disk_nth(1) [OF assms(1,2)]
  by (simp add: block_at_def blk_def)

lemma wf_array_uncounted:
  assumes "uncounted a = uncounted b"
  shows "wf_array a = wf_array b"
proof -
  note e = uncounted_eqD [OF assms]
  have v: "\<And>i. i < length (disks b) \<Longrightarrow>
      wf_disk bs nb (disks a ! i) = wf_disk bs nb (disks b ! i)" for bs nb
    using uncounted_view [OF assms] by (simp add: wf_disk_def)
  have "0 < length (disks b) \<Longrightarrow> blocksPerDisk a = blocksPerDisk b"
    using uncounted_view(2) [OF assms, of 0] by (simp add: blocksPerDisk_def)
  moreover have "list_all (wf_disk bs nb) (disks a) = list_all (wf_disk bs nb) (disks b)" for bs nb
    using v e(5) by (simp add: list_all_length)
  ultimately show ?thesis
    unfolding wf_array_def using e by (cases "0 < length (disks b)") auto
qed

lemma wf_array_put:
  assumes "wf_array a" and "i < numDisks a" and "s < blocksPerDisk a" and "length dat = arrayBlockSize a"
  shows "wf_array (put a i s dat)" and "blocksPerDisk (put a i s dat) = blocksPerDisk a"
proof -
  note d = wf_disk_nth [OF assms(1,2)]
  have w: "s * blockSize (disks a ! i) + blockSize (disks a ! i) \<le> length (fileData (disks a ! i))"
    using wf_block_within [OF assms(1-3)] .
  have len: "\<And>j. length (fileData (disks (put a i s dat) ! j)) = length (fileData (disks a ! j))"
    using put_length_file [OF d(4) _ w] assms(4) d(1) by simp
  show b: "blocksPerDisk (put a i s dat) = blocksPerDisk a" by (simp add: blocksPerDisk_def)
  have "list_all (wf_disk (arrayBlockSize a) (blocksPerDisk a)) (disks (put a i s dat))"
    using assms(1) len by (simp add: wf_array_def list_all_length wf_disk_def)
  then show "wf_array (put a i s dat)"
    using assms(1) unfolding wf_array_def b by auto
qed

subsection \<open>The level-5 layout\<close>

lemma skip_parity_code: "(if p \<le> i then i + 1 else i) = skip_parity p i"
  by (simp add: skip_parity_def)

lemma skip_parity_neq [simp]: "skip_parity p i \<noteq> p"
  by (simp add: skip_parity_def)

lemma skip_parity_inj: "skip_parity p i = skip_parity p j \<Longrightarrow> i = j"
  by (simp add: skip_parity_def split: if_splits)

lemma skip_parity_less: "i < N - 1 \<Longrightarrow> skip_parity p i < N"
  by (auto simp: skip_parity_def)

lemma skip_parity_image: "p < N \<Longrightarrow> skip_parity p ` {0..<N - 1} = {0..<N} - {p}"
proof (intro equalityI subsetI)
  fix j assume "j \<in> skip_parity p ` {0..<N - 1}"
  then show "j \<in> {0..<N} - {p}" by (auto simp: skip_parity_def)
next
  fix j assume j: "j \<in> {0..<N} - {p}" and p: "p < N"
  show "j \<in> skip_parity p ` {0..<N - 1}"
  proof (cases "j < p")
    case True
    then have "skip_parity p j = j" "j \<in> {0..<N - 1}" using p by (auto simp: skip_parity_def)
    then show ?thesis by (metis imageI)
  next
    case False
    then have "skip_parity p (j - 1) = j" "j - 1 \<in> {0..<N - 1}" using j by (auto simp: skip_parity_def)
    then show ?thesis by (metis imageI)
  qed
qed

lemma layout_bounds:
  assumes "2 \<le> N" and "lbid < nb * (N - 1)"
  shows "stripe_of N lbid < nb" "stripe_offset_of N lbid < N - 1" "parity_disk_of N lbid < N"
    "data_disk_of N lbid < N" "data_disk_of N lbid \<noteq> parity_disk_of N lbid"
proof -
  have n: "0 < N - 1" using assms(1) by simp
  show "stripe_of N lbid < nb"
    using assms(2) n by (simp add: stripe_of_def less_mult_imp_div_less)
  show o: "stripe_offset_of N lbid < N - 1" using n by (simp add: stripe_offset_of_def)
  show "parity_disk_of N lbid < N" using assms(1) by (simp add: parity_disk_of_def)
  show "data_disk_of N lbid < N" using o by (simp add: data_disk_of_def skip_parity_less)
  show "data_disk_of N lbid \<noteq> parity_disk_of N lbid" by (simp add: data_disk_of_def)
qed

lemma layout_inj:
  assumes "data_disk_of N l = data_disk_of N l'" and "stripe_of N l = stripe_of N l'"
  shows "l = l'"
proof -
  have "parity_disk_of N l = parity_disk_of N l'" using assms(2) by (simp add: parity_disk_of_def)
  with assms(1) have "stripe_offset_of N l = stripe_offset_of N l'"
    by (simp add: data_disk_of_def skip_parity_inj)
  then have "l mod (N - 1) = l' mod (N - 1)" "l div (N - 1) = l' div (N - 1)"
    using assms(2) by (simp_all add: stripe_of_def stripe_offset_of_def)
  then show ?thesis by (metis div_mult_mod_eq)
qed

lemma siblings_set:
  assumes "p < N" and "off < N - 1"
  shows "set (siblings N p off) = {0..<N} - {p, skip_parity p off}" "distinct (siblings N p off)"
proof -
  have "set (siblings N p off) = skip_parity p ` ({0..<N - 1} - {off})"
    by (auto simp: siblings_def)
  also have "\<dots> = skip_parity p ` {0..<N - 1} - {skip_parity p off}"
    using assms(2) by (auto dest: skip_parity_inj)
  finally show "set (siblings N p off) = {0..<N} - {p, skip_parity p off}"
    using skip_parity_image [OF assms(1)] by auto
  show "distinct (siblings N p off)"
    unfolding siblings_def by (simp add: distinct_map inj_on_def skip_parity_inj)
qed

lemma siblings_others:
  assumes "p < N" and "off < N - 1"
  shows "mset (siblings N p off) = mset (others N p (skip_parity p off))"
proof -
  have "set (others N p (skip_parity p off)) = {0..<N} - {p, skip_parity p off}"
    by (auto simp: others_def)
  moreover have "distinct (others N p (skip_parity p off))" by (simp add: others_def)
  ultimately show ?thesis
    using siblings_set [OF assms] by (simp add: set_eq_iff_mset_eq_distinct [symmetric])
qed

subsection \<open>The loops of the level-5 engine\<close>

lemma disks_ReadBlock_readable_ex:
  assumes "uncounted a = uncounted a0" and "readable a0 i b"
  obtains a' where "disks_ReadBlock a i b = (Inr (block_at a0 i b), a')" "uncounted a' = uncounted a0"
proof -
  have "fst (disks_ReadBlock a i b) = Inr (block_at a0 i b)"
    using assms by (rule disks_ReadBlock_readable)
  moreover have "uncounted (snd (disks_ReadBlock a i b)) = uncounted a0"
    using assms(1) by simp
  ultimately show ?thesis
    using that [of "snd (disks_ReadBlock a i b)"] by (metis prod.collapse)
qed

lemma parity_loop_Cons:
  "parity_loop a s off p acc (i # is) =
     (if i = off then parity_loop a s off p acc is
      else if failed (disks a ! skip_parity p i) then parity_loop a s off p acc is
      else (case disks_ReadBlock a (skip_parity p i) s of
              (Inl err, a') \<Rightarrow> (Inl (ParityCalcFailed (skip_parity p i) err), a')
            | (Inr blockData, a') \<Rightarrow> parity_loop a' s off p (xorBytes acc blockData) is))"
proof (cases "p \<le> i")
  case True
  then have e: "skip_parity p i = Suc i" by (simp add: skip_parity_def)
  show ?thesis unfolding e using True by (simp add: Let_def IsFailed_def)
next
  case False
  then have e: "skip_parity p i = i" by (simp add: skip_parity_def)
  show ?thesis unfolding e using False by (simp add: Let_def IsFailed_def)
qed

declare parity_loop.simps(2) [simp del]

lemma parity_loop_value:
  assumes "uncounted a = uncounted a0"
    and "\<forall>i\<in>set is. i \<noteq> off \<longrightarrow> skip_parity p i < length (disks a0) \<and>
           (\<not> failed (disks a0 ! skip_parity p i) \<longrightarrow> readable a0 (skip_parity p i) s)"
  shows "fst (parity_loop a s off p acc is) =
     Inr (xor_fold (\<lambda>j. block_at a0 j s)
            (filter (\<lambda>j. \<not> failed (disks a0 ! j)) (map (skip_parity p) (filter (\<lambda>i. i \<noteq> off) is))) acc)"
  using assms
proof (induction "is" arbitrary: a acc)
  case Nil
  show ?case by simp
next
  case (Cons i "is")
  have rest: "\<forall>i\<in>set is. i \<noteq> off \<longrightarrow> skip_parity p i < length (disks a0) \<and>
           (\<not> failed (disks a0 ! skip_parity p i) \<longrightarrow> readable a0 (skip_parity p i) s)"
    using Cons.prems(2) by simp
  show ?case
  proof (cases "i = off")
    case True
    then show ?thesis using Cons.IH [OF Cons.prems(1) rest] by (simp add: parity_loop_Cons)
  next
    case False
    let ?j = "skip_parity p i"
    have j: "?j < length (disks a0)" and r: "\<not> failed (disks a0 ! ?j) \<Longrightarrow> readable a0 ?j s"
      using Cons.prems(2) False by simp_all
    have f: "failed (disks a ! ?j) = failed (disks a0 ! ?j)"
      using uncounted_view(1) [OF Cons.prems(1) j] .
    show ?thesis
    proof (cases "failed (disks a0 ! ?j)")
      case True
      then show ?thesis
        using False f Cons.IH [OF Cons.prems(1) rest] by (simp add: parity_loop_Cons)
    next
      case nf: False
      from disks_ReadBlock_readable_ex [OF Cons.prems(1) r [OF nf]]
      obtain a' where a': "disks_ReadBlock a ?j s = (Inr (block_at a0 ?j s), a')"
        "uncounted a' = uncounted a0" .
      show ?thesis
        using False f nf a'(1) Cons.IH [OF a'(2) rest] by (simp add: parity_loop_Cons)
    qed
  qed
qed

lemma reconstruct_loop_value:
  assumes "uncounted a = uncounted a0"
    and "\<forall>i\<in>set is. i \<noteq> p \<and> i \<noteq> m \<longrightarrow> readable a0 i s"
  shows "fst (reconstruct_loop a s m p acc is) =
     Inr (xor_fold (\<lambda>j. block_at a0 j s) (filter (\<lambda>i. i \<noteq> p \<and> i \<noteq> m) is) acc)"
  using assms
proof (induction "is" arbitrary: a acc)
  case Nil
  show ?case by simp
next
  case (Cons i "is")
  have rest: "\<forall>i\<in>set is. i \<noteq> p \<and> i \<noteq> m \<longrightarrow> readable a0 i s"
    using Cons.prems(2) by simp
  show ?case
  proof (cases "i = p \<or> i = m")
    case True
    then show ?thesis using Cons.IH [OF Cons.prems(1) rest] by auto
  next
    case False
    then have r: "readable a0 i s" using Cons.prems(2) by simp
    then have "\<not> failed (disks a ! i)"
      using uncounted_readable [OF Cons.prems(1), of i s] by (simp add: readable_def)
    moreover from disks_ReadBlock_readable_ex [OF Cons.prems(1) r]
    obtain a' where a': "disks_ReadBlock a i s = (Inr (block_at a0 i s), a')"
      "uncounted a' = uncounted a0" .
    ultimately show ?thesis
      using False Cons.IH [OF a'(2) rest] by (simp add: IsFailed_def)
  qed
qed

lemma rebuildParity_loop_value:
  assumes "uncounted a = uncounted a0"
    and "\<forall>i\<in>set is. i \<noteq> p \<longrightarrow> readable a0 i s"
  shows "fst (rebuildParity_loop a s p acc is) =
     Inr (xor_fold (\<lambda>j. block_at a0 j s) (filter (\<lambda>i. i \<noteq> p) is) acc)"
  using assms
proof (induction "is" arbitrary: a acc)
  case Nil
  show ?case by simp
next
  case (Cons i "is")
  have rest: "\<forall>i\<in>set is. i \<noteq> p \<longrightarrow> readable a0 i s"
    using Cons.prems(2) by simp
  show ?case
  proof (cases "i = p")
    case True
    then show ?thesis using Cons.IH [OF Cons.prems(1) rest] by simp
  next
    case False
    then have r: "readable a0 i s" using Cons.prems(2) by simp
    from disks_ReadBlock_readable_ex [OF Cons.prems(1) r]
    obtain a' where a': "disks_ReadBlock a i s = (Inr (block_at a0 i s), a')"
      "uncounted a' = uncounted a0" .
    show ?thesis
      using False a'(1) Cons.IH [OF a'(2) rest] by simp
  qed
qed

subsection \<open>Level 5: what a write and a read do to a well-formed array\<close>

lemma raid5_writeBlock_unfold:
  "raid5_writeBlock a lbid dat =
     (case parity_loop a (stripe_of (numDisks a) lbid) (stripe_offset_of (numDisks a) lbid)
             (parity_disk_of (numDisks a) lbid) (copy_block (arrayBlockSize a) dat) [0..<numDisks a - 1] of
        (Inl err, a1) \<Rightarrow> (Some err, a1)
      | (Inr parity, a1) \<Rightarrow>
          (case (if \<not> failed (disks a1 ! parity_disk_of (numDisks a) lbid)
                 then disks_WriteBlock a1 (parity_disk_of (numDisks a) lbid) (stripe_of (numDisks a) lbid) parity
                 else (None, a1)) of
             (Some err, a2) \<Rightarrow> (Some (ParityWriteFailed (parity_disk_of (numDisks a) lbid) err), a2)
           | (None, a2) \<Rightarrow>
               (case disks_WriteBlock a2 (data_disk_of (numDisks a) lbid) (stripe_of (numDisks a) lbid) dat of
                  (Some err, a3) \<Rightarrow> (Some (DataWriteFailed (data_disk_of (numDisks a) lbid) err), a3)
                | (None, a3) \<Rightarrow> (None, a3))))"
  unfolding raid5_writeBlock_def Let_def skip_parity_code IsFailed_def
    data_disk_of_def parity_disk_of_def stripe_of_def stripe_offset_of_def ..

lemma raid5_readBlock_unfold:
  "raid5_readBlock a lbid =
     (if \<not> failed (disks a ! data_disk_of (numDisks a) lbid)
      then (case disks_ReadBlock a (data_disk_of (numDisks a) lbid) (stripe_of (numDisks a) lbid) of
              (Inr dat, a') \<Rightarrow> (Inr dat, a')
            | (Inl err, a') \<Rightarrow>
                reconstructBlock a' (stripe_of (numDisks a) lbid) (data_disk_of (numDisks a) lbid)
                  (parity_disk_of (numDisks a) lbid))
      else reconstructBlock a (stripe_of (numDisks a) lbid) (data_disk_of (numDisks a) lbid)
             (parity_disk_of (numDisks a) lbid))"
  unfolding raid5_readBlock_def Let_def skip_parity_code IsFailed_def
    data_disk_of_def parity_disk_of_def stripe_of_def stripe_offset_of_def ..

lemma copy_block_id: "length dat = n \<Longrightarrow> copy_block n dat = dat"
  by (simp add: copy_block_def)

lemma wf_raid5:
  assumes "wf_array a" and "level a = RAID5"
  shows "capacity a = blocksPerDisk a * (numDisks a - 1)" "3 \<le> numDisks a"
    "numDisks a = length (disks a)"
  using assms by (auto simp: wf_array_def)

text \<open>The parity that a write computes: the data XOR the siblings that are not failed.\<close>

lemma parity_loop_wf:
  assumes "wf_array a" and "level a = RAID5" and "lbid < capacity a"
    and "length dat = arrayBlockSize a"
  obtains a1 where
    "parity_loop a (stripe_of (numDisks a) lbid) (stripe_offset_of (numDisks a) lbid)
        (parity_disk_of (numDisks a) lbid) (copy_block (arrayBlockSize a) dat) [0..<numDisks a - 1] =
     (Inr (xor_fold (\<lambda>j. block_at a j (stripe_of (numDisks a) lbid))
            (filter (\<lambda>j. \<not> failed (disks a ! j))
               (siblings (numDisks a) (parity_disk_of (numDisks a) lbid) (stripe_offset_of (numDisks a) lbid)))
            dat), a1)"
    "uncounted a1 = uncounted a"
proof -
  let ?N = "numDisks a"
  let ?s = "stripe_of ?N lbid" and ?off = "stripe_offset_of ?N lbid" and ?p = "parity_disk_of ?N lbid"
  let ?L = "parity_loop a ?s ?off ?p (copy_block (arrayBlockSize a) dat) [0..<?N - 1]"
  note w = wf_raid5 [OF assms(1,2)]
  have lb: "lbid < blocksPerDisk a * (?N - 1)" using assms(3) w(1) by simp
  have N2: "2 \<le> ?N" using w(2) by simp
  note b = layout_bounds [OF N2 lb]
  have h: "\<forall>i\<in>set [0..<?N - 1]. i \<noteq> ?off \<longrightarrow> skip_parity ?p i < length (disks a) \<and>
           (\<not> failed (disks a ! skip_parity ?p i) \<longrightarrow> readable a (skip_parity ?p i) ?s)"
  proof (intro ballI impI conjI)
    fix i assume "i \<in> set [0..<?N - 1]"
    then have j: "skip_parity ?p i < ?N" by (simp add: skip_parity_less)
    then show "skip_parity ?p i < length (disks a)" using w(3) by simp
    assume "\<not> failed (disks a ! skip_parity ?p i)"
    then show "readable a (skip_parity ?p i) ?s" using wf_readable [OF assms(1) j b(1)] by simp
  qed
  have "fst ?L = Inr (xor_fold (\<lambda>j. block_at a j ?s)
            (filter (\<lambda>j. \<not> failed (disks a ! j)) (siblings ?N ?p ?off)) dat)"
    using parity_loop_value [OF refl h] assms(4) by (simp add: siblings_def copy_block_id)
  moreover have "uncounted (snd ?L) = uncounted a" by simp
  ultimately show ?thesis using that [of "snd ?L"] by (metis prod.collapse)
qed

lemma length_new_parity [simp]: "length (new_parity a lbid dat) = length dat"
  by (simp add: new_parity_def)

lemma raid5_layout_wf:
  assumes "wf_array a" and "level a = RAID5" and "lbid < capacity a"
  shows "stripe_of (numDisks a) lbid < blocksPerDisk a"
    "stripe_offset_of (numDisks a) lbid < numDisks a - 1"
    "parity_disk_of (numDisks a) lbid < numDisks a"
    "data_disk_of (numDisks a) lbid < numDisks a"
    "data_disk_of (numDisks a) lbid \<noteq> parity_disk_of (numDisks a) lbid"
proof -
  note w = wf_raid5 [OF assms(1,2)]
  have lb: "lbid < blocksPerDisk a * (numDisks a - 1)" using assms(3) w(1) by simp
  have N2: "2 \<le> numDisks a" using w(2) by simp
  note b = layout_bounds [OF N2 lb]
  show "stripe_of (numDisks a) lbid < blocksPerDisk a" by (rule b(1))
  show "stripe_offset_of (numDisks a) lbid < numDisks a - 1" by (rule b(2))
  show "parity_disk_of (numDisks a) lbid < numDisks a" by (rule b(3))
  show "data_disk_of (numDisks a) lbid < numDisks a" by (rule b(4))
  show "data_disk_of (numDisks a) lbid \<noteq> parity_disk_of (numDisks a) lbid" by (rule b(5))
qed

lemma parity_written_wf:
  assumes "wf_array a" and "level a = RAID5" and "lbid < capacity a"
    and "length dat = arrayBlockSize a"
  shows "wf_array (parity_written a lbid dat)"
    "blocksPerDisk (parity_written a lbid dat) = blocksPerDisk a"
    "numDisks (parity_written a lbid dat) = numDisks a"
    "failed (disks (parity_written a lbid dat) ! j) = failed (disks a ! j)"
    "level (parity_written a lbid dat) = level a"
    "capacity (parity_written a lbid dat) = capacity a"
    "arrayBlockSize (parity_written a lbid dat) = arrayBlockSize a"
proof -
  note b = raid5_layout_wf [OF assms(1-3)]
  have l: "length (new_parity a lbid dat) = arrayBlockSize a" using assms(4) by simp
  show "wf_array (parity_written a lbid dat)"
    using wf_array_put(1) [OF assms(1) b(3) b(1) l] assms(1) by (simp add: parity_written_def)
  show "blocksPerDisk (parity_written a lbid dat) = blocksPerDisk a"
    using wf_array_put(2) [OF assms(1) b(3) b(1) l] by (simp add: parity_written_def)
  show "numDisks (parity_written a lbid dat) = numDisks a" by (simp add: parity_written_def)
  show "failed (disks (parity_written a lbid dat) ! j) = failed (disks a ! j)"
    by (simp add: parity_written_def)
  show "level (parity_written a lbid dat) = level a" by (simp add: parity_written_def)
  show "capacity (parity_written a lbid dat) = capacity a" by (simp add: parity_written_def)
  show "arrayBlockSize (parity_written a lbid dat) = arrayBlockSize a" by (simp add: parity_written_def)
qed

text \<open>After the parity loop and the parity write the array is \<open>parity_written\<close>.\<close>

lemma raid5_parity_step:
  assumes "wf_array a" and "level a = RAID5" and "lbid < capacity a"
    and "length dat = arrayBlockSize a"
  obtains a2 where
    "raid5_writeBlock a lbid dat =
       (case disks_WriteBlock a2 (data_disk_of (numDisks a) lbid) (stripe_of (numDisks a) lbid) dat of
          (Some err, a3) \<Rightarrow> (Some (DataWriteFailed (data_disk_of (numDisks a) lbid) err), a3)
        | (None, a3) \<Rightarrow> (None, a3))"
    "uncounted a2 = uncounted (parity_written a lbid dat)"
proof -
  let ?N = "numDisks a"
  let ?s = "stripe_of ?N lbid" and ?p = "parity_disk_of ?N lbid" and ?dd = "data_disk_of ?N lbid"
  let ?P = "new_parity a lbid dat"
  note b = raid5_layout_wf [OF assms(1-3)]
  note w = wf_raid5 [OF assms(1,2)]
  from parity_loop_wf [OF assms] obtain a1 where
    a1: "parity_loop a ?s (stripe_offset_of ?N lbid) ?p (copy_block (arrayBlockSize a) dat) [0..<?N - 1]
          = (Inr ?P, a1)" and u1: "uncounted a1 = uncounted a"
    unfolding new_parity_def by blast
  have pl: "?p < length (disks a)" using b(3) w(3) by simp
  have f1: "failed (disks a1 ! ?p) = failed (disks a ! ?p)"
    using uncounted_view(1) [OF u1 pl] .
  show ?thesis
  proof (cases "failed (disks a ! ?p)")
    case True
    have "uncounted a1 = uncounted (parity_written a lbid dat)"
      using u1 True by (simp add: parity_written_def)
    moreover have "raid5_writeBlock a lbid dat =
       (case disks_WriteBlock a1 ?dd ?s dat of
          (Some err, a3) \<Rightarrow> (Some (DataWriteFailed ?dd err), a3)
        | (None, a3) \<Rightarrow> (None, a3))"
      unfolding raid5_writeBlock_unfold a1 using True f1 by simp
    ultimately show ?thesis using that by blast
  next
    case False
    have wr: "writable a ?p ?s ?P"
      using wf_writable [OF assms(1) b(3) b(1) False] assms(4) by simp
    obtain a2 where W: "disks_WriteBlock a1 ?p ?s ?P = (None, a2)"
      using disks_WriteBlock_writable(1) [OF u1 wr] by (metis prod.collapse)
    have "uncounted a2 = uncounted (parity_written a lbid dat)"
      using disks_WriteBlock_writable(2) [OF u1 wr] False W by (simp add: parity_written_def)
    moreover have "raid5_writeBlock a lbid dat =
       (case disks_WriteBlock a2 ?dd ?s dat of
          (Some err, a3) \<Rightarrow> (Some (DataWriteFailed ?dd err), a3)
        | (None, a3) \<Rightarrow> (None, a3))"
      unfolding raid5_writeBlock_unfold a1 using False f1 W by simp
    ultimately show ?thesis using that by blast
  qed
qed

lemma raid5_writeBlock_ok:
  assumes "wf_array a" and "level a = RAID5" and "lbid < capacity a"
    and "length dat = arrayBlockSize a"
    and "\<not> failed (disks a ! data_disk_of (numDisks a) lbid)"
  shows "fst (raid5_writeBlock a lbid dat) = None"
    and "uncounted (snd (raid5_writeBlock a lbid dat)) = uncounted (raid5_written a lbid dat)"
proof -
  let ?s = "stripe_of (numDisks a) lbid" and ?dd = "data_disk_of (numDisks a) lbid"
  note b = raid5_layout_wf [OF assms(1-3)]
  note pw = parity_written_wf [OF assms(1-4)]
  from raid5_parity_step [OF assms(1-4)] obtain a2 where
    W: "raid5_writeBlock a lbid dat =
       (case disks_WriteBlock a2 ?dd ?s dat of
          (Some err, a3) \<Rightarrow> (Some (DataWriteFailed ?dd err), a3)
        | (None, a3) \<Rightarrow> (None, a3))"
    and u2: "uncounted a2 = uncounted (parity_written a lbid dat)" .
  have wr: "writable (parity_written a lbid dat) ?dd ?s dat"
    using wf_writable [OF pw(1), of ?dd ?s dat] b(1,4) assms(4,5) pw(2,3,4,7) by simp
  have D: "disks_WriteBlock a2 ?dd ?s dat = (None, snd (disks_WriteBlock a2 ?dd ?s dat))"
    using disks_WriteBlock_writable(1) [OF u2 wr] by (metis prod.collapse)
  show "fst (raid5_writeBlock a lbid dat) = None"
    unfolding W by (subst D) simp
  show "uncounted (snd (raid5_writeBlock a lbid dat)) = uncounted (raid5_written a lbid dat)"
    unfolding W raid5_written_def
    by (subst D) (simp add: disks_WriteBlock_writable(2) [OF u2 wr])
qed

lemma raid5_writeBlock_data_failed:
  assumes "wf_array a" and "level a = RAID5" and "lbid < capacity a"
    and "length dat = arrayBlockSize a"
    and "failed (disks a ! data_disk_of (numDisks a) lbid)"
  shows "fst (raid5_writeBlock a lbid dat) = Some (DataWriteFailed (data_disk_of (numDisks a) lbid) DiskFailed)"
    and "uncounted (snd (raid5_writeBlock a lbid dat)) = uncounted (parity_written a lbid dat)"
proof -
  let ?s = "stripe_of (numDisks a) lbid" and ?dd = "data_disk_of (numDisks a) lbid"
  note b = raid5_layout_wf [OF assms(1-3)]
  note pw = parity_written_wf [OF assms(1-4)]
  note w = wf_raid5 [OF assms(1,2)]
  from raid5_parity_step [OF assms(1-4)] obtain a2 where
    W: "raid5_writeBlock a lbid dat =
       (case disks_WriteBlock a2 ?dd ?s dat of
          (Some err, a3) \<Rightarrow> (Some (DataWriteFailed ?dd err), a3)
        | (None, a3) \<Rightarrow> (None, a3))"
    and u2: "uncounted a2 = uncounted (parity_written a lbid dat)" .
  have "?dd < length (disks (parity_written a lbid dat))"
    using b(4) w(3) by (simp add: parity_written_def)
  from uncounted_view(1) [OF u2 this] have "failed (disks a2 ! ?dd)"
    using assms(5) pw(4) by simp
  then have "fst (Disk_WriteBlock (disks a2 ! ?dd) (int ?s) dat) = Some DiskFailed"
    by (simp add: Disk_WriteBlock_failed)
  from disks_WriteBlock_err [OF this] have D: "disks_WriteBlock a2 ?dd ?s dat = (Some DiskFailed, a2)" .
  show "fst (raid5_writeBlock a lbid dat) = Some (DataWriteFailed ?dd DiskFailed)"
    unfolding W D by simp
  show "uncounted (snd (raid5_writeBlock a lbid dat)) = uncounted (parity_written a lbid dat)"
    unfolding W D using u2 by simp
qed

subsection \<open>XOR of equally long blocks\<close>

lemma xorBytes_assoc:
  "length a = length b \<Longrightarrow> length b = length c \<Longrightarrow>
   xorBytes (xorBytes a b) c = xorBytes a (xorBytes b c)"
  by (rule nth_equalityI) (auto simp: nth_xorBytes xor.assoc)

lemma xor_fold_from:
  assumes "\<forall>i\<in>set is. length (f i) = n" and "length acc = n"
  shows "xor_fold f is acc = xorBytes acc (xor_fold f is (zero_block n))"
  using assms
proof (induction "is" arbitrary: acc)
  case Nil
  then show ?case by (simp add: zero_block_def xorBytes_zero_right)
next
  case (Cons i "is")
  let ?F = "xor_fold f is (zero_block n)"
  have li: "length (f i) = n" and rest: "\<forall>i\<in>set is. length (f i) = n" using Cons.prems(1) by simp_all
  have "xor_fold f (i # is) acc = xorBytes (xorBytes acc (f i)) ?F"
    using Cons.IH [OF rest, of "xorBytes acc (f i)"] Cons.prems(2) by simp
  also have "\<dots> = xorBytes acc (xorBytes (f i) ?F)"
    using li Cons.prems(2) by (simp add: xorBytes_assoc zero_block_def)
  also have "xorBytes (f i) ?F = xor_fold f is (f i)"
    using Cons.IH [OF rest li] by simp
  also have "\<dots> = xor_fold f (i # is) (zero_block n)"
    using li by (simp add: zero_block_def xorBytes_zero_left)
  finally show ?case .
qed

lemma xor_fold_zero:
  assumes "\<forall>i\<in>set is. f i = zero_block n"
  shows "xor_fold f is (zero_block n) = zero_block n"
  using assms by (induction "is") (simp_all add: zero_block_def xorBytes_zero_right)

subsection \<open>The blocks after a level-5 write\<close>

lemma block_at_parity_written:
  assumes "wf_array a" and "level a = RAID5" and "lbid < capacity a"
    and "length dat = arrayBlockSize a"
  shows "block_at (parity_written a lbid dat) j b =
     (if j = parity_disk_of (numDisks a) lbid \<and> b = stripe_of (numDisks a) lbid \<and>
         \<not> failed (disks a ! parity_disk_of (numDisks a) lbid)
      then new_parity a lbid dat else block_at a j b)"
proof -
  let ?p = "parity_disk_of (numDisks a) lbid" and ?s = "stripe_of (numDisks a) lbid"
  note b = raid5_layout_wf [OF assms(1-3)]
  note d = wf_disk_nth [OF assms(1) b(3)]
  have l: "length (new_parity a lbid dat) = blockSize (disks a ! ?p)" using assms(4) d(1) by simp
  show ?thesis
    using block_at_put [OF d(4) l wf_block_within [OF assms(1) b(3) b(1)]]
    by (simp add: parity_written_def)
qed

lemma block_at_raid5_written:
  assumes "wf_array a" and "level a = RAID5" and "lbid < capacity a"
    and "length dat = arrayBlockSize a"
  shows "block_at (raid5_written a lbid dat) j b =
     (if j = data_disk_of (numDisks a) lbid \<and> b = stripe_of (numDisks a) lbid then dat
      else block_at (parity_written a lbid dat) j b)"
proof -
  let ?dd = "data_disk_of (numDisks a) lbid" and ?s = "stripe_of (numDisks a) lbid"
  let ?a2 = "parity_written a lbid dat"
  note b = raid5_layout_wf [OF assms(1-3)]
  note pw = parity_written_wf [OF assms]
  have dd: "?dd < numDisks ?a2" and s: "?s < blocksPerDisk ?a2" using b pw(2,3) by simp_all
  note d = wf_disk_nth [OF pw(1) dd]
  have l: "length dat = blockSize (disks ?a2 ! ?dd)" using assms(4) d(1) pw(7) by simp
  show ?thesis
    using block_at_put [OF d(4) l wf_block_within [OF pw(1) dd s]]
    by (simp add: raid5_written_def)
qed

lemma raid5_written_wf:
  assumes "wf_array a" and "level a = RAID5" and "lbid < capacity a"
    and "length dat = arrayBlockSize a"
  shows "wf_array (raid5_written a lbid dat)"
    "blocksPerDisk (raid5_written a lbid dat) = blocksPerDisk a"
    "failed (disks (raid5_written a lbid dat) ! j) = failed (disks a ! j)"
proof -
  let ?dd = "data_disk_of (numDisks a) lbid" and ?s = "stripe_of (numDisks a) lbid"
  let ?a2 = "parity_written a lbid dat"
  note b = raid5_layout_wf [OF assms(1-3)]
  note pw = parity_written_wf [OF assms]
  have dd: "?dd < numDisks ?a2" and s: "?s < blocksPerDisk ?a2" and l: "length dat = arrayBlockSize ?a2"
    using b pw(2,3,7) assms(4) by simp_all
  show "wf_array (raid5_written a lbid dat)"
    using wf_array_put(1) [OF pw(1) dd s l] by (simp add: raid5_written_def)
  show "blocksPerDisk (raid5_written a lbid dat) = blocksPerDisk a"
    using wf_array_put(2) [OF pw(1) dd s l] pw(2) by (simp add: raid5_written_def)
  show "failed (disks (raid5_written a lbid dat) ! j) = failed (disks a ! j)"
    using pw(4) by (simp add: raid5_written_def)
qed

subsection \<open>The parity invariant\<close>

lemma parity_inv_iff:
  "parity_inv a \<longleftrightarrow> (\<forall>s<blocksPerDisk a. stripe_xor a s = zero_block (arrayBlockSize a))"
  by (auto simp: parity_inv_def list_all_iff)

lemma all_healthy_iff: "all_healthy a \<longleftrightarrow> (\<forall>i<length (disks a). \<not> failed (disks a ! i))"
  by (simp add: all_healthy_def list_all_length)

lemma stripe_members:
  assumes "p < N" and "off < N - 1"
  shows "mset [0..<N] = mset (p # skip_parity p off # siblings N p off)"
proof -
  let ?l = "p # skip_parity p off # siblings N p off"
  have sp: "skip_parity p off < N" using assms(2) by (rule skip_parity_less)
  have "set (siblings N p off) = {0..<N} - {p, skip_parity p off}"
    using siblings_set(1) [OF assms] .
  then have "set ?l = insert p (insert (skip_parity p off) ({0..<N} - {p, skip_parity p off}))"
    by simp
  also have "\<dots> = {0..<N}" using sp assms(1) by auto
  finally have e: "set ?l = set [0..<N]" by simp
  have "p \<noteq> skip_parity p off" by (rule not_sym) (rule skip_parity_neq)
  then have d: "distinct ?l"
    using siblings_set [OF assms] by simp
  have "mset ?l = mset [0..<N]"
    using iffD1 [OF set_eq_iff_mset_eq_distinct [OF d distinct_upt] e] .
  then show ?thesis by (rule sym)
qed

lemma stripe_xor_uncounted:
  assumes "uncounted a = uncounted b" and "numDisks b = length (disks b)"
  shows "stripe_xor a s = stripe_xor b s"
proof -
  have "xor_fold (\<lambda>i. block_at a i s) [0..<numDisks b] (zero_block (arrayBlockSize b)) =
        xor_fold (\<lambda>i. block_at b i s) [0..<numDisks b] (zero_block (arrayBlockSize b))"
    using uncounted_view(5) [OF assms(1)] assms(2) by (intro xor_fold_cong) simp
  then show ?thesis using uncounted_eqD [OF assms(1)] by (simp add: stripe_xor_def)
qed

lemma blocksPerDisk_uncounted:
  "uncounted a = uncounted b \<Longrightarrow> 0 < length (disks b) \<Longrightarrow> blocksPerDisk a = blocksPerDisk b"
  using uncounted_view(2) [of a b 0] by (simp add: blocksPerDisk_def)

lemma parity_inv_uncounted:
  assumes "uncounted a = uncounted b" and "wf_array b"
  shows "parity_inv a = parity_inv b"
proof -
  have n: "numDisks b = length (disks b)" "0 < length (disks b)"
    using assms(2) by (auto simp: wf_array_def)
  show ?thesis
    unfolding parity_inv_iff
    using stripe_xor_uncounted [OF assms(1) n(1)] blocksPerDisk_uncounted [OF assms(1) n(2)]
      uncounted_eqD(4) [OF assms(1)] by simp
qed

lemma all_healthy_uncounted:
  assumes "uncounted a = uncounted b"
  shows "all_healthy a = all_healthy b"
  unfolding all_healthy_iff
  using uncounted_view(1) [OF assms] uncounted_eqD(5) [OF assms] by auto

text \<open>A write to a healthy array leaves the XOR of the written stripe zero.\<close>

lemma stripe_xor_raid5_written:
  assumes "wf_array a" and "level a = RAID5" and "lbid < capacity a"
    and "length dat = arrayBlockSize a" and "all_healthy a" and "s < blocksPerDisk a"
  shows "stripe_xor (raid5_written a lbid dat) s =
     (if s = stripe_of (numDisks a) lbid then zero_block (arrayBlockSize a) else stripe_xor a s)"
proof -
  let ?N = "numDisks a" and ?n = "arrayBlockSize a"
  let ?s = "stripe_of ?N lbid" and ?p = "parity_disk_of ?N lbid" and ?off = "stripe_offset_of ?N lbid"
  let ?dd = "data_disk_of ?N lbid"
  let ?a' = "raid5_written a lbid dat"
  let ?P = "new_parity a lbid dat"
  note b = raid5_layout_wf [OF assms(1-3)]
  note w = wf_raid5 [OF assms(1,2)]
  have h: "\<And>j. j < ?N \<Longrightarrow> \<not> failed (disks a ! j)"
    using assms(5) w(3) by (simp add: all_healthy_iff)
  have B: "\<And>j b. block_at ?a' j b =
      (if j = ?dd \<and> b = ?s then dat else if j = ?p \<and> b = ?s then ?P else block_at a j b)"
    using block_at_raid5_written [OF assms(1-4)] block_at_parity_written [OF assms(1-4)] h [OF b(3)]
    by simp
  have fields: "numDisks ?a' = ?N" "arrayBlockSize ?a' = ?n"
    by (simp_all add: raid5_written_def parity_written_def)
  show ?thesis
  proof (cases "s = ?s")
    case False
    then have "\<And>j. block_at ?a' j s = block_at a j s" using B by simp
    then show ?thesis using False by (simp add: stripe_xor_def fields)
  next
    case True
    let ?f = "\<lambda>j. block_at a j ?s" and ?f' = "\<lambda>j. block_at ?a' j ?s"
    let ?sib = "siblings ?N ?p ?off"
    let ?Z = "zero_block ?n"
    have sibset: "set ?sib = {0..<?N} - {?p, ?dd}"
      using siblings_set(1) [OF b(3) b(2)] by (simp add: data_disk_of_def)
    have live: "filter (\<lambda>j. \<not> failed (disks a ! j)) ?sib = ?sib"
      using sibset h by (intro filter_True) auto
    have lens: "\<forall>j\<in>set ?sib. length (?f j) = ?n"
      using sibset length_block_at [OF assms(1) _ b(1)] by auto
    let ?S = "xor_fold ?f ?sib ?Z"
    have lS: "length ?S = ?n" by (simp add: zero_block_def)
    have P: "?P = xorBytes dat ?S"
      unfolding new_parity_def live using xor_fold_from [OF lens assms(4)] .
    have lP: "length ?P = ?n" using assms(4) by simp
    have cong: "xor_fold ?f' ?sib acc = xor_fold ?f ?sib acc" for acc
      using sibset B by (intro xor_fold_cong) auto
    have "stripe_xor ?a' ?s = xor_fold ?f' (?p # ?dd # ?sib) ?Z"
      unfolding stripe_xor_def fields
      using xor_fold_perm [OF stripe_members [OF b(3) b(2)], of ?f' ?Z]
      by (simp only: data_disk_of_def)
    also have "\<dots> = xor_fold ?f ?sib (xorBytes (xorBytes ?Z ?P) dat)"
      using B b(5) cong by simp
    also have "xorBytes ?Z ?P = ?P" using lP by (simp add: zero_block_def xorBytes_zero_left)
    also have "xor_fold ?f ?sib (xorBytes ?P dat) = xorBytes (xorBytes ?P dat) ?S"
      using xor_fold_from [OF lens, of "xorBytes ?P dat"] lP by simp
    also have "xorBytes ?P dat = ?S"
      unfolding P using xorBytes_swap [of dat ?S dat] assms(4) lS
      by (simp add: xorBytes_self xorBytes_zero_left)
    also have "xorBytes ?S ?S = ?Z" using lS by (simp add: xorBytes_self zero_block_def)
    finally show ?thesis using True by simp
  qed
qed

lemma parity_inv_raid5_written:
  assumes "wf_array a" and "level a = RAID5" and "lbid < capacity a"
    and "length dat = arrayBlockSize a" and "all_healthy a" and "parity_inv a"
  shows "parity_inv (raid5_written a lbid dat)"
  unfolding parity_inv_iff raid5_written_wf(2) [OF assms(1-4)]
  using stripe_xor_raid5_written [OF assms(1-5)] assms(6)
  by (simp add: parity_inv_iff raid5_written_def parity_written_def)

subsection \<open>C1: the parity invariant under writes to a healthy array\<close>

lemma zero_filled_block:
  assumes "zero_filled a" and "wf_array a" and "i < numDisks a" and "s < blocksPerDisk a"
  shows "block_at a i s = zero_block (arrayBlockSize a)"
proof -
  note d = wf_disk_nth [OF assms(2,3)]
  have "list_all (\<lambda>x. x = 0) (fileData (disks a ! i))"
    using assms(1) d(4) by (simp add: zero_filled_def list_all_length)
  then have z: "\<forall>x\<in>set (fileData (disks a ! i)). x = 0" by (simp add: list_all_iff)
  have "\<forall>x\<in>set (block_at a i s). x = 0"
    using z in_set_takeD in_set_dropD unfolding block_at_def blk_def by fast
  moreover have "length (block_at a i s) = arrayBlockSize a"
    using length_block_at [OF assms(2,3,4)] .
  ultimately show ?thesis
    unfolding zero_block_def by (metis replicate_length_same)
qed

lemma zero_filled_parity_inv:
  assumes "zero_filled a" and "wf_array a"
  shows "parity_inv a"
  unfolding parity_inv_iff stripe_xor_def
  using zero_filled_block [OF assms] by (auto intro!: xor_fold_zero)

lemma healthy_parity_uncounted:
  assumes "uncounted a' = uncounted a" and "healthy_parity a"
  shows "healthy_parity a'"
proof -
  have w: "wf_array a" using assms(2) by (simp add: healthy_parity_def)
  show ?thesis
    using assms(2) wf_array_uncounted [OF assms(1)] uncounted_eqD(1) [OF assms(1)]
      all_healthy_uncounted [OF assms(1)] parity_inv_uncounted [OF assms(1) w]
    by (simp add: healthy_parity_def)
qed

lemma healthy_parity_WriteBlock:
  assumes "healthy_parity a"
  shows "healthy_parity (snd (WriteBlock a sched lbid dat))"
proof (cases "lbid < 0 \<or> lbid \<ge> int (capacity a) \<or> length dat \<noteq> arrayBlockSize a")
  case True
  then have "snd (WriteBlock a sched lbid dat) = a" by (auto simp: WriteBlock_def)
  then show ?thesis using assms by simp
next
  case False
  have w: "wf_array a" and l: "level a = RAID5" and h: "all_healthy a" and p: "parity_inv a"
    using assms by (simp_all add: healthy_parity_def)
  let ?l = "nat lbid"
  have lb: "?l < capacity a" and len: "length dat = arrayBlockSize a" using False by auto
  have W: "WriteBlock a sched lbid dat = raid5_writeBlock a ?l dat"
    using False l by (simp add: WriteBlock_def)
  note b = raid5_layout_wf [OF w l lb]
  have "\<not> failed (disks a ! data_disk_of (numDisks a) ?l)"
    using h b(4) wf_raid5(3) [OF w l] by (simp add: all_healthy_iff)
  from raid5_writeBlock_ok(2) [OF w l lb len this]
  have u: "uncounted (snd (WriteBlock a sched lbid dat)) = uncounted (raid5_written a ?l dat)"
    unfolding W .
  note rw = raid5_written_wf [OF w l lb len]
  have "all_healthy (raid5_written a ?l dat)"
    using h rw(3) by (simp add: all_healthy_iff raid5_written_def parity_written_def)
  then have "healthy_parity (raid5_written a ?l dat)"
    using rw(1) l parity_inv_raid5_written [OF w l lb len h p]
    by (simp add: healthy_parity_def raid5_written_def parity_written_def)
  with u show ?thesis by (rule healthy_parity_uncounted)
qed

lemma healthy_parity_run:
  "healthy_parity a \<Longrightarrow> healthy_parity (run a ops)"
proof (induction ops arbitrary: a)
  case Nil
  then show ?case by simp
next
  case (Cons x ops)
  have "healthy_parity (apply_op a x)"
  proof (cases x)
    case (Write sched lbid dat)
    then show ?thesis using healthy_parity_WriteBlock [OF Cons.prems] by simp
  next
    case (Read lbid)
    have "uncounted (snd (ReadBlock a lbid)) = uncounted a" by simp
    then show ?thesis using Read healthy_parity_uncounted Cons.prems by simp
  qed
  then show ?case using Cons.IH by simp
qed

lemma parity_is_xor_of_data:
  assumes "wf_array a" and "s < blocksPerDisk a" and "p < numDisks a"
    and "stripe_xor a s = zero_block (arrayBlockSize a)"
  shows "block_at a p s =
     xor_fold (\<lambda>i. block_at a i s) (filter (\<lambda>i. i \<noteq> p) [0..<numDisks a]) (zero_block (arrayBlockSize a))"
proof -
  let ?N = "numDisks a" and ?n = "arrayBlockSize a"
  let ?f = "\<lambda>i. block_at a i s" and ?rest = "filter (\<lambda>i. i \<noteq> p) [0..<?N]"
  let ?Z = "zero_block ?n"
  have "set (p # ?rest) = set [0..<?N]" using assms(3) by auto
  moreover have "distinct (p # ?rest)" by simp
  ultimately have "mset (p # ?rest) = mset [0..<?N]"
    using iffD1 [OF set_eq_iff_mset_eq_distinct [OF _ distinct_upt]] by blast
  then have "stripe_xor a s = xor_fold ?f (p # ?rest) ?Z"
    unfolding stripe_xor_def by (intro xor_fold_perm) simp
  also have "\<dots> = xor_fold ?f ?rest (?f p)"
    using length_block_at [OF assms(1,3,2)] by (simp add: zero_block_def xorBytes_zero_left)
  also have "\<dots> = xorBytes (?f p) (xor_fold ?f ?rest ?Z)"
    using length_block_at [OF assms(1) _ assms(2)] length_block_at [OF assms(1,3,2)]
    by (intro xor_fold_from) auto
  finally have "xorBytes (?f p) (xor_fold ?f ?rest ?Z) = replicate (length (?f p)) 0"
    using assms(4) length_block_at [OF assms(1,3,2)] by (simp add: zero_block_def)
  moreover have "length (?f p) = length (xor_fold ?f ?rest ?Z)"
    using length_block_at [OF assms(1,3,2)] by (simp add: zero_block_def)
  ultimately show ?thesis using xorBytes_eq_zero_iff by blast
qed

text \<open>
  C1. On a level-5 array whose disks are all healthy and zero-filled, after any
  sequence of \<open>WriteBlock\<close> operations (\<open>ReadBlock\<close> operations may come in between; a
  write that the facade rejects changes nothing), the byte-wise XOR of the blocks at
  physical index \<open>s\<close> of all member disks is the zero block, for every stripe \<open>s\<close>;
  equivalently, the block on the parity disk \<open>s mod N\<close> is the XOR of the blocks of the
  other \<open>N - 1\<close> disks.
\<close>

theorem raid5_parity_invariant:
  assumes "wf_array a" and "level a = RAID5" and "all_healthy a" and "zero_filled a"
  shows "parity_inv (run a ops) \<and>
     (\<forall>s<blocksPerDisk (run a ops).
        stripe_xor (run a ops) s = zero_block (arrayBlockSize (run a ops)) \<and>
        block_at (run a ops) (s mod numDisks (run a ops)) s =
          xor_fold (\<lambda>i. block_at (run a ops) i s)
            (filter (\<lambda>i. i \<noteq> s mod numDisks (run a ops)) [0..<numDisks (run a ops)])
            (zero_block (arrayBlockSize (run a ops))))"
proof -
  let ?a = "run a ops"
  have "healthy_parity a"
    using assms zero_filled_parity_inv [OF assms(4,1)] by (simp add: healthy_parity_def)
  then have hp: "healthy_parity ?a" by (rule healthy_parity_run)
  then have w: "wf_array ?a" and p: "parity_inv ?a" by (simp_all add: healthy_parity_def)
  have N: "0 < numDisks ?a" using w by (auto simp: wf_array_def)
  show ?thesis
  proof (intro conjI allI impI)
    show "parity_inv ?a" by (rule p)
  next
    fix s assume s: "s < blocksPerDisk ?a"
    then show z: "stripe_xor ?a s = zero_block (arrayBlockSize ?a)"
      using p by (simp add: parity_inv_iff)
    show "block_at ?a (s mod numDisks ?a) s =
          xor_fold (\<lambda>i. block_at ?a i s)
            (filter (\<lambda>i. i \<noteq> s mod numDisks ?a) [0..<numDisks ?a])
            (zero_block (arrayBlockSize ?a))"
      using N by (intro parity_is_xor_of_data [OF w s _ z]) simp
  qed
qed

theorem raid5_parity_invariant_witness:
  "wf_array parity3 \<and> level parity3 = RAID5 \<and> all_healthy parity3 \<and> zero_filled parity3 \<and>
   parity_inv (run parity3 [Write [] 1 [7], Write [] 0 [3], Read 1, Write [] 3 [9], Write [] 1 [5]]) \<and>
   map fileData (disks (run parity3 [Write [] 1 [7], Write [] 0 [3], Read 1, Write [] 3 [9], Write [] 1 [5]]))
     = [[6, 0], [3, 9], [5, 9]]"
proof -
  have h: "wf_array parity3" "level parity3 = RAID5" "all_healthy parity3" "zero_filled parity3"
    by code_simp+
  have f: "map fileData (disks (run parity3 [Write [] 1 [7], Write [] 0 [3], Read 1, Write [] 3 [9], Write [] 1 [5]]))
     = [[6, 0], [3, 9], [5, 9]]"
    by code_simp
  from raid5_parity_invariant [OF h, of "[Write [] 1 [7], Write [] 0 [3], Read 1, Write [] 3 [9], Write [] 1 [5]]"]
  show ?thesis using h f by blast
qed

subsection \<open>C2: the degraded read\<close>

lemma others_members:
  assumes "p < N" and "m < N" and "p \<noteq> m"
  shows "mset [0..<N] = mset (p # m # others N p m)"
proof -
  let ?l = "p # m # others N p m"
  have e: "set ?l = set [0..<N]" using assms by (auto simp: others_def)
  have d: "distinct ?l" using assms(3) by (simp add: others_def)
  have "mset ?l = mset [0..<N]"
    using iffD1 [OF set_eq_iff_mset_eq_distinct [OF d distinct_upt] e] .
  then show ?thesis by (rule sym)
qed

lemma reconstruct_is_missing:
  assumes "wf_array a" and "s < blocksPerDisk a" and "p < numDisks a" and "m < numDisks a"
    and "p \<noteq> m" and "stripe_xor a s = zero_block (arrayBlockSize a)"
  shows "xor_fold (\<lambda>i. block_at a i s) (others (numDisks a) p m) (block_at a p s) = block_at a m s"
proof -
  let ?N = "numDisks a" and ?n = "arrayBlockSize a"
  let ?f = "\<lambda>i. block_at a i s" and ?Z = "zero_block ?n"
  let ?R = "xor_fold ?f (others ?N p m) (?f p)"
  have lp: "length (?f p) = ?n" and lm: "length (?f m) = ?n"
    using length_block_at [OF assms(1) _ assms(2)] assms(3,4) by simp_all
  have "stripe_xor a s = xor_fold ?f (p # m # others ?N p m) ?Z"
    unfolding stripe_xor_def by (rule xor_fold_perm [OF others_members [OF assms(3,4,5)]])
  also have "\<dots> = xor_fold ?f (others ?N p m) (xorBytes (?f p) (?f m))"
    using lp by (simp add: zero_block_def xorBytes_zero_left)
  also have "\<dots> = xorBytes ?R (?f m)" by (rule xor_fold_acc)
  finally have "xorBytes ?R (?f m) = replicate (length ?R) 0"
    using assms(6) lp by (simp add: zero_block_def)
  moreover have "length ?R = length (?f m)" using lp lm by simp
  ultimately show ?thesis using xorBytes_eq_zero_iff by blast
qed

lemma reconstructBlock_value:
  assumes "uncounted a = uncounted a0" and "numDisks a0 = length (disks a0)"
    and "p < numDisks a0" and "readable a0 p s"
    and "\<forall>i<numDisks a0. i \<noteq> p \<and> i \<noteq> m \<longrightarrow> readable a0 i s"
  shows "fst (reconstructBlock a s m p) =
     Inr (xor_fold (\<lambda>j. block_at a0 j s) (others (numDisks a0) p m) (block_at a0 p s))"
proof -
  have nf: "\<not> failed (disks a ! p)"
    using uncounted_readable [OF assms(1), of p s] assms(4) by (simp add: readable_def)
  from disks_ReadBlock_readable_ex [OF assms(1,4)]
  obtain a' where a': "disks_ReadBlock a p s = (Inr (block_at a0 p s), a')"
    "uncounted a' = uncounted a0" .
  have h: "\<forall>i\<in>set [0..<numDisks a0]. i \<noteq> p \<and> i \<noteq> m \<longrightarrow> readable a0 i s"
    using assms(5) by simp
  have N: "numDisks a = numDisks a0" using uncounted_eqD(2) [OF assms(1)] .
  show ?thesis
    using nf a'(1) reconstruct_loop_value [OF a'(2) h, of "block_at a0 p s"] N
    by (simp add: reconstructBlock_def IsFailed_def others_def)
qed

lemma raid5_readBlock_direct:
  assumes "uncounted a = uncounted a0" and "numDisks a0 = length (disks a0)"
    and "readable a0 (data_disk_of (numDisks a0) lbid) (stripe_of (numDisks a0) lbid)"
  shows "fst (raid5_readBlock a lbid) =
     Inr (block_at a0 (data_disk_of (numDisks a0) lbid) (stripe_of (numDisks a0) lbid))"
proof -
  have N: "numDisks a = numDisks a0" using uncounted_eqD(2) [OF assms(1)] .
  have "readable a (data_disk_of (numDisks a0) lbid) (stripe_of (numDisks a0) lbid)"
    using uncounted_readable [OF assms(1), of "data_disk_of (numDisks a0) lbid" "stripe_of (numDisks a0) lbid"]
      assms(3) by simp
  then have nf: "\<not> failed (disks a ! data_disk_of (numDisks a0) lbid)"
    by (simp add: readable_def)
  from disks_ReadBlock_readable_ex [OF assms(1,3)]
  obtain a' where "disks_ReadBlock a (data_disk_of (numDisks a0) lbid) (stripe_of (numDisks a0) lbid) =
     (Inr (block_at a0 (data_disk_of (numDisks a0) lbid) (stripe_of (numDisks a0) lbid)), a')" .
  then show ?thesis using nf unfolding raid5_readBlock_unfold N by simp
qed

lemma raid5_readBlock_degraded:
  assumes "uncounted a = uncounted a0" and "numDisks a0 = length (disks a0)"
    and "data_disk_of (numDisks a0) lbid < numDisks a0"
    and "failed (disks a0 ! data_disk_of (numDisks a0) lbid)"
  shows "fst (raid5_readBlock a lbid) =
     fst (reconstructBlock a (stripe_of (numDisks a0) lbid) (data_disk_of (numDisks a0) lbid)
            (parity_disk_of (numDisks a0) lbid))"
proof -
  have N: "numDisks a = numDisks a0" using uncounted_eqD(2) [OF assms(1)] .
  have "failed (disks a ! data_disk_of (numDisks a0) lbid)"
    using uncounted_view(1) [OF assms(1), of "data_disk_of (numDisks a0) lbid"] assms(2,3,4) by simp
  then show ?thesis unfolding raid5_readBlock_unfold N by simp
qed

lemma disks_SetFailed_view:
  assumes "d < length (disks a)"
  shows "failed (disks (disks_SetFailed a d f) ! j) = (if j = d then f else failed (disks a ! j))"
    "block_at (disks_SetFailed a d f) j s = block_at a j s"
    "numDisks (disks_SetFailed a d f) = numDisks a"
    "length (disks (disks_SetFailed a d f)) = length (disks a)"
    "blocksPerDisk (disks_SetFailed a d f) = blocksPerDisk a"
    "level (disks_SetFailed a d f) = level a"
    "capacity (disks_SetFailed a d f) = capacity a"
    "arrayBlockSize (disks_SetFailed a d f) = arrayBlockSize a"
    "wf_array (disks_SetFailed a d f) = wf_array a"
proof -
  have n: "disks (disks_SetFailed a d f) ! j = (if j = d then (disks a ! d)\<lparr>failed := f\<rparr> else disks a ! j)" for j
    using assms by (simp add: disks_SetFailed_def SetFailed_def)
  show "failed (disks (disks_SetFailed a d f) ! j) = (if j = d then f else failed (disks a ! j))"
    by (simp add: n)
  show "block_at (disks_SetFailed a d f) j s = block_at a j s"
    by (simp add: n block_at_def blk_def)
  show "numDisks (disks_SetFailed a d f) = numDisks a"
    "length (disks (disks_SetFailed a d f)) = length (disks a)"
    "level (disks_SetFailed a d f) = level a"
    "capacity (disks_SetFailed a d f) = capacity a"
    "arrayBlockSize (disks_SetFailed a d f) = arrayBlockSize a"
    by (simp_all add: disks_SetFailed_def)
  show b: "blocksPerDisk (disks_SetFailed a d f) = blocksPerDisk a"
    by (simp add: blocksPerDisk_def n)
  have "wf_disk bs nb (disks (disks_SetFailed a d f) ! j) = wf_disk bs nb (disks a ! j)" for bs nb j
    by (simp add: n wf_disk_def)
  then have "list_all (wf_disk bs nb) (disks (disks_SetFailed a d f)) = list_all (wf_disk bs nb) (disks a)"
    for bs nb
    by (simp add: list_all_length disks_SetFailed_def)
  then show "wf_array (disks_SetFailed a d f) = wf_array a"
    unfolding wf_array_def b by (simp add: disks_SetFailed_def)
qed

text \<open>
  C2 (as amended). On a level-5 array with all disks healthy on which the parity
  invariant holds, mark one disk \<open>d\<close> failed; then, as long as nothing is written (the
  array \<open>a'\<close> differs from the marked one in counters only), for every logical block in
  \<open>[0, capacity)\<close> \<open>ReadBlock\<close> succeeds and returns the bytes it returned before \<open>d\<close> was
  marked failed: the block at the stripe on its data disk, whether that disk is \<open>d\<close>
  or not.
\<close>

theorem raid5_degraded_read:
  assumes "wf_array a" and "level a = RAID5" and "all_healthy a" and "parity_inv a"
    and "d < numDisks a" and "0 \<le> lbid" and "lbid < int (capacity a)"
    and "uncounted a' = uncounted (disks_SetFailed a d True)"
  shows "fst (ReadBlock a' lbid) = fst (ReadBlock a lbid) \<and>
         fst (ReadBlock a lbid) =
           Inr (block_at a (data_disk_of (numDisks a) (nat lbid)) (stripe_of (numDisks a) (nat lbid)))"
proof -
  let ?N = "numDisks a" and ?l = "nat lbid"
  let ?s = "stripe_of ?N ?l" and ?p = "parity_disk_of ?N ?l" and ?dd = "data_disk_of ?N ?l"
  let ?F = "disks_SetFailed a d True"
  have lb: "?l < capacity a" using assms(6,7) by simp
  note b = raid5_layout_wf [OF assms(1,2) lb]
  note w = wf_raid5 [OF assms(1,2)]
  have dl: "d < length (disks a)" using assms(5) w(3) by simp
  note v = disks_SetFailed_view [OF dl, of True]
  have h: "\<And>j. j < ?N \<Longrightarrow> \<not> failed (disks a ! j)"
    using assms(3) w(3) by (simp add: all_healthy_iff)
  have wF: "wf_array ?F" using v(9) assms(1) by simp
  have RF: "ReadBlock a' lbid = raid5_readBlock a' ?l"
    using assms(2,6,7) uncounted_eqD(1,3) [OF assms(8)] v(6,7) by (simp add: ReadBlock_def)
  have R: "ReadBlock a lbid = raid5_readBlock a ?l"
    using assms(2,6,7) by (simp add: ReadBlock_def)
  have nl: "?N = length (disks a)" "numDisks ?F = length (disks ?F)" using w(3) v(3,4) by simp_all
  have direct: "fst (ReadBlock a lbid) = Inr (block_at a ?dd ?s)"
    unfolding R
    using raid5_readBlock_direct [OF refl w(3) wf_readable [OF assms(1) b(4) b(1) h [OF b(4)]]] .
  have "fst (ReadBlock a' lbid) = Inr (block_at a ?dd ?s)"
  proof (cases "?dd = d")
    case False
    have "readable ?F ?dd ?s"
      using wf_readable [OF wF, of ?dd ?s] b(1,4) v(1,3,5) False h [OF b(4)] by simp
    then show ?thesis
      unfolding RF using raid5_readBlock_direct [OF assms(8) nl(2), of ?l] v(2,3) by simp
  next
    case True
    have rd: "\<And>i. i < ?N \<Longrightarrow> i \<noteq> ?dd \<Longrightarrow> readable ?F i ?s"
      using wf_readable [OF wF, of _ ?s] b(1) v(1,3,5) True h by simp
    have "fst (ReadBlock a' lbid) = fst (reconstructBlock a' ?s ?dd ?p)"
      unfolding RF using raid5_readBlock_degraded [OF assms(8) nl(2), of ?l] b(4) v(1,3) True by simp
    also have "\<dots> = Inr (xor_fold (\<lambda>j. block_at ?F j ?s) (others ?N ?p ?dd) (block_at ?F ?p ?s))"
      using reconstructBlock_value [OF assms(8) nl(2), of ?p ?s ?dd] b(3,5) rd v(3) by simp
    also have "\<dots> = Inr (block_at a ?dd ?s)"
      using reconstruct_is_missing [OF assms(1) b(1) b(3) b(4)] b(5) b(1) assms(4)
      by (simp add: v(2) parity_inv_iff)
    finally show ?thesis .
  qed
  with direct show ?thesis by simp
qed

theorem raid5_degraded_read_witness:
  "fst (ReadBlock (disks_SetFailed (run parity3 [Write [] 1 [7], Write [] 0 [3], Write [] 3 [9]]) 2 True) 1) = Inr [7] \<and>
   fst (ReadBlock (run parity3 [Write [] 1 [7], Write [] 0 [3], Write [] 3 [9]]) 1) = Inr [7] \<and>
   fst (ReadBlock (disks_SetFailed (run parity3 [Write [] 1 [7], Write [] 0 [3], Write [] 3 [9]]) 2 True) 0) = Inr [3]"
proof -
  let ?a = "run parity3 [Write [] 1 [7], Write [] 0 [3], Write [] 3 [9]]"
  have h: "wf_array ?a" "level ?a = RAID5" "all_healthy ?a" "parity_inv ?a" "2 < numDisks ?a"
    by code_simp+
  have c: "1 < int (capacity ?a)" "0 < int (capacity ?a)" by code_simp+
  have v: "block_at ?a (data_disk_of (numDisks ?a) (nat 1)) (stripe_of (numDisks ?a) (nat 1)) = [7]"
    "block_at ?a (data_disk_of (numDisks ?a) (nat 0)) (stripe_of (numDisks ?a) (nat 0)) = [3]"
    by code_simp+
  from raid5_degraded_read [OF h, of 1 "disks_SetFailed ?a 2 True"]
    raid5_degraded_read [OF h, of 0 "disks_SetFailed ?a 2 True"] c v
  show ?thesis by simp
qed

text \<open>
  C2 as stated fails on an array whose parity is stale. \<open>NewRAIDArray\<close> keeps what the
  disk files hold already: created over three files of which the first holds the byte
  1, the array reads block 0 (on disk 1) as 0; with disk 1 marked failed the same read
  reconstructs 1 from the parity on disk 0.
\<close>

theorem stale_parity_read_counterexample:
  "NewRAIDArray (\<lambda>p. if p = ''d0'' then [1, 0] else []) stale_config = Some (Inr stale_parity) \<and>
   wf_array stale_parity \<and> all_healthy stale_parity \<and>
   fst (ReadBlock stale_parity 0) = Inr [0] \<and>
   fst (ReadBlock (disks_SetFailed stale_parity 1 True) 0) = Inr [1]"
  by code_simp

subsection \<open>C5: the level-5 layout\<close>

lemma raid5_WriteBlock_blocks:
  assumes "wf_array a" and "level a = RAID5" and "lbid < capacity a"
    and "length dat = arrayBlockSize a"
    and "\<not> failed (disks a ! data_disk_of (numDisks a) lbid)"
    and "j < numDisks a"
  shows "block_at (snd (raid5_writeBlock a lbid dat)) j b =
     (if j = data_disk_of (numDisks a) lbid \<and> b = stripe_of (numDisks a) lbid then dat
      else if j = parity_disk_of (numDisks a) lbid \<and> b = stripe_of (numDisks a) lbid \<and>
              \<not> failed (disks a ! parity_disk_of (numDisks a) lbid)
      then new_parity a lbid dat
      else block_at a j b)"
proof -
  have "j < length (disks (raid5_written a lbid dat))"
    using assms(6) wf_raid5(3) [OF assms(1,2)] by (simp add: raid5_written_def parity_written_def)
  from uncounted_view(5) [OF raid5_writeBlock_ok(2) [OF assms(1-5)] this]
  show ?thesis
    by (simp add: block_at_raid5_written [OF assms(1-4)] block_at_parity_written [OF assms(1-4)])
qed

text \<open>
  C5. On a level-5 array of \<open>N\<close> disks, for a logical block \<open>lbid\<close> in \<open>[0, capacity)\<close>,
  with \<open>stripe = lbid div (N - 1)\<close>, parity disk \<open>stripe mod N\<close> and data disk
  \<open>lbid mod (N - 1)\<close> or that plus one (skipping the parity disk):
  the read returns physical block \<open>stripe\<close> of the data disk (when that disk is not
  failed), or, when only the data disk is failed, the XOR of the physical blocks
  \<open>stripe\<close> of all other disks; a write (to a data disk that is not failed) succeeds, puts the data at
  physical block \<open>stripe\<close> of the data disk and the new parity at physical block
  \<open>stripe\<close> of the parity disk (unless that disk is failed), and changes no other block
  of any disk. The parity disk and the data disk are different disks of the array, the
  \<open>N - 1\<close> data positions of a stripe lie one to one on the \<open>N - 1\<close> disks other than
  the parity disk, and different logical blocks have different (disk, physical block)
  pairs.
\<close>

theorem raid5_layout:
  assumes "wf_array a" and "level a = RAID5" and "0 \<le> lbid" and "lbid < int (capacity a)"
  shows "stripe_of (numDisks a) (nat lbid) = nat lbid div (numDisks a - 1) \<and>
     parity_disk_of (numDisks a) (nat lbid) = stripe_of (numDisks a) (nat lbid) mod numDisks a \<and>
     data_disk_of (numDisks a) (nat lbid) =
       (if nat lbid mod (numDisks a - 1) < parity_disk_of (numDisks a) (nat lbid)
        then nat lbid mod (numDisks a - 1) else nat lbid mod (numDisks a - 1) + 1) \<and>
     stripe_of (numDisks a) (nat lbid) < blocksPerDisk a \<and>
     parity_disk_of (numDisks a) (nat lbid) < numDisks a \<and>
     data_disk_of (numDisks a) (nat lbid) < numDisks a \<and>
     data_disk_of (numDisks a) (nat lbid) \<noteq> parity_disk_of (numDisks a) (nat lbid) \<and>
     (\<not> failed (disks a ! data_disk_of (numDisks a) (nat lbid)) \<longrightarrow>
        fst (ReadBlock a lbid) =
          Inr (block_at a (data_disk_of (numDisks a) (nat lbid)) (stripe_of (numDisks a) (nat lbid)))) \<and>
     (failed (disks a ! data_disk_of (numDisks a) (nat lbid)) \<and>
      (\<forall>i<numDisks a. i \<noteq> data_disk_of (numDisks a) (nat lbid) \<longrightarrow> \<not> failed (disks a ! i)) \<longrightarrow>
        fst (ReadBlock a lbid) =
          Inr (xor_fold (\<lambda>j. block_at a j (stripe_of (numDisks a) (nat lbid)))
                 (others (numDisks a) (parity_disk_of (numDisks a) (nat lbid))
                    (data_disk_of (numDisks a) (nat lbid)))
                 (block_at a (parity_disk_of (numDisks a) (nat lbid))
                    (stripe_of (numDisks a) (nat lbid))))) \<and>
     (\<not> failed (disks a ! data_disk_of (numDisks a) (nat lbid)) \<and> length dat = arrayBlockSize a \<longrightarrow>
        fst (WriteBlock a sched lbid dat) = None \<and>
        (\<forall>j<numDisks a. \<forall>b.
           block_at (snd (WriteBlock a sched lbid dat)) j b =
             (if j = data_disk_of (numDisks a) (nat lbid) \<and> b = stripe_of (numDisks a) (nat lbid)
              then dat
              else if j = parity_disk_of (numDisks a) (nat lbid) \<and>
                      b = stripe_of (numDisks a) (nat lbid) \<and>
                      \<not> failed (disks a ! parity_disk_of (numDisks a) (nat lbid))
              then new_parity a (nat lbid) dat
              else block_at a j b))) \<and>
     bij_betw (skip_parity (parity_disk_of (numDisks a) (nat lbid))) {0..<numDisks a - 1}
       ({0..<numDisks a} - {parity_disk_of (numDisks a) (nat lbid)}) \<and>
     (\<forall>lbid'. lbid' \<noteq> nat lbid \<longrightarrow>
        (data_disk_of (numDisks a) lbid', stripe_of (numDisks a) lbid') \<noteq>
        (data_disk_of (numDisks a) (nat lbid), stripe_of (numDisks a) (nat lbid)))"
proof -
  let ?N = "numDisks a" and ?l = "nat lbid"
  let ?s = "stripe_of ?N ?l" and ?p = "parity_disk_of ?N ?l" and ?dd = "data_disk_of ?N ?l"
  have lb: "?l < capacity a" using assms(3,4) by simp
  note b = raid5_layout_wf [OF assms(1,2) lb]
  note w = wf_raid5 [OF assms(1,2)]
  have R: "ReadBlock a lbid = raid5_readBlock a ?l"
    using assms(2,3,4) by (simp add: ReadBlock_def)
  have W: "length dat = arrayBlockSize a \<Longrightarrow> WriteBlock a sched lbid dat = raid5_writeBlock a ?l dat"
    using assms(2,3,4) by (simp add: WriteBlock_def)
  have f1: "?s = ?l div (?N - 1)" by (simp add: stripe_of_def)
  have f2: "?p = ?s mod ?N" by (simp add: parity_disk_of_def)
  have f3: "?dd = (if ?l mod (?N - 1) < ?p then ?l mod (?N - 1) else ?l mod (?N - 1) + 1)"
    by (simp add: data_disk_of_def skip_parity_def stripe_offset_of_def)
  have rd: "\<not> failed (disks a ! ?dd) \<longrightarrow> fst (ReadBlock a lbid) = Inr (block_at a ?dd ?s)"
  proof
    assume "\<not> failed (disks a ! ?dd)"
    from raid5_readBlock_direct [OF refl w(3) wf_readable [OF assms(1) b(4) b(1) this]]
    show "fst (ReadBlock a lbid) = Inr (block_at a ?dd ?s)" unfolding R .
  qed
  have dg: "failed (disks a ! ?dd) \<and> (\<forall>i<?N. i \<noteq> ?dd \<longrightarrow> \<not> failed (disks a ! i)) \<longrightarrow>
        fst (ReadBlock a lbid) =
          Inr (xor_fold (\<lambda>j. block_at a j ?s) (others ?N ?p ?dd) (block_at a ?p ?s))"
  proof
    assume h: "failed (disks a ! ?dd) \<and> (\<forall>i<?N. i \<noteq> ?dd \<longrightarrow> \<not> failed (disks a ! i))"
    then have rd: "\<And>i. i < ?N \<Longrightarrow> i \<noteq> ?dd \<Longrightarrow> readable a i ?s"
      using wf_readable [OF assms(1) _ b(1)] by simp
    have "fst (ReadBlock a lbid) = fst (reconstructBlock a ?s ?dd ?p)"
      unfolding R using raid5_readBlock_degraded [OF refl w(3) b(4)] h by simp
    also have "\<dots> = Inr (xor_fold (\<lambda>j. block_at a j ?s) (others ?N ?p ?dd) (block_at a ?p ?s))"
      using reconstructBlock_value [OF refl w(3) b(3), of ?s ?dd] rd b(3,5) by simp
    finally show "fst (ReadBlock a lbid) =
          Inr (xor_fold (\<lambda>j. block_at a j ?s) (others ?N ?p ?dd) (block_at a ?p ?s))" .
  qed
  have wr: "\<not> failed (disks a ! ?dd) \<and> length dat = arrayBlockSize a \<longrightarrow>
        fst (WriteBlock a sched lbid dat) = None \<and>
        (\<forall>j<?N. \<forall>b.
           block_at (snd (WriteBlock a sched lbid dat)) j b =
             (if j = ?dd \<and> b = ?s then dat
              else if j = ?p \<and> b = ?s \<and> \<not> failed (disks a ! ?p) then new_parity a ?l dat
              else block_at a j b))"
  proof (intro impI conjI allI)
    assume h: "\<not> failed (disks a ! ?dd) \<and> length dat = arrayBlockSize a"
    then have nf: "\<not> failed (disks a ! ?dd)" and len: "length dat = arrayBlockSize a" by simp_all
    show "fst (WriteBlock a sched lbid dat) = None"
      unfolding W [OF len] by (rule raid5_writeBlock_ok(1) [OF assms(1,2) lb len nf])
    fix j b assume "j < ?N"
    from raid5_WriteBlock_blocks [OF assms(1,2) lb len nf this]
    show "block_at (snd (WriteBlock a sched lbid dat)) j b =
             (if j = ?dd \<and> b = ?s then dat
              else if j = ?p \<and> b = ?s \<and> \<not> failed (disks a ! ?p) then new_parity a ?l dat
              else block_at a j b)"
      unfolding W [OF len] .
  qed
  have bij: "bij_betw (skip_parity ?p) {0..<?N - 1} ({0..<?N} - {?p})"
    unfolding bij_betw_def
    using skip_parity_image [OF b(3)] by (simp add: inj_on_def skip_parity_inj)
  have inj: "\<forall>lbid'. lbid' \<noteq> ?l \<longrightarrow> (data_disk_of ?N lbid', stripe_of ?N lbid') \<noteq> (?dd, ?s)"
    using layout_inj [of ?N _ ?l] by auto
  from f1 f2 f3 b(1,3,4,5) rd dg wr bij inj show ?thesis by blast
qed

theorem raid5_layout_witness:
  "stripe_of 3 3 = 1 \<and> parity_disk_of 3 3 = 1 \<and> data_disk_of 3 3 = 2 \<and>
   fst (ReadBlock parity3 3) = Inr (block_at parity3 2 1) \<and>
   fst (WriteBlock parity3 [] 3 [9]) = None \<and>
   block_at (snd (WriteBlock parity3 [] 3 [9])) 2 1 = [9] \<and>
   block_at (snd (WriteBlock parity3 [] 3 [9])) 1 1 = new_parity parity3 3 [9] \<and>
   block_at (snd (WriteBlock parity3 [] 3 [9])) 0 1 = block_at parity3 0 1"
proof -
  have h: "wf_array parity3" "level parity3 = RAID5" "(0::int) \<le> 3" "3 < int (capacity parity3)"
    by code_simp+
  have n: "numDisks parity3 = 3" "nat 3 = 3" by code_simp+
  have l: "stripe_of 3 3 = 1" "parity_disk_of 3 3 = 1" "data_disk_of 3 3 = 2" by code_simp+
  have f: "\<not> failed (disks parity3 ! 2)" "\<not> failed (disks parity3 ! 1)"
    "length [9::byte] = arrayBlockSize parity3" by code_simp+
  note T = raid5_layout [OF h, of "[9]" "[]", unfolded n l]
  have r: "fst (ReadBlock parity3 3) = Inr (block_at parity3 2 1)" using T f by blast
  have w: "fst (WriteBlock parity3 [] 3 [9]) = None \<and>
        (\<forall>j<3. \<forall>b.
           block_at (snd (WriteBlock parity3 [] 3 [9])) j b =
             (if j = 2 \<and> b = 1 then [9]
              else if j = 1 \<and> b = 1 \<and> \<not> failed (disks parity3 ! 1) then new_parity parity3 3 [9]
              else block_at parity3 j b))"
    using T f by blast
  then have "block_at (snd (WriteBlock parity3 [] 3 [9])) 2 1 = [9]"
    "block_at (snd (WriteBlock parity3 [] 3 [9])) 1 1 = new_parity parity3 3 [9]"
    "block_at (snd (WriteBlock parity3 [] 3 [9])) 0 1 = block_at parity3 0 1"
    using f by simp_all
  with l r w show ?thesis by blast
qed

subsection \<open>C4: a block that has been written is read back\<close>

lemma Disk_WriteBlock_effect:
  assumes "wf_disk bs nb d"
  shows "failed (snd (Disk_WriteBlock d (int b') dat')) = failed d"
    and "wf_disk bs nb (snd (Disk_WriteBlock d (int b') dat'))"
    and "b \<noteq> b' \<Longrightarrow> blk (snd (Disk_WriteBlock d (int b') dat')) b = blk d b"
    and "fst (Disk_WriteBlock d (int b') dat') = None \<Longrightarrow>
           blk (snd (Disk_WriteBlock d (int b') dat')) b' = dat' \<and> \<not> failed d"
proof -
  let ?w = "\<not> failed d \<and> b' < numBlocks d \<and> length dat' = blockSize d"
  have D: "Disk_WriteBlock d (int b') dat' =
     (if ?w then (None, d\<lparr>fileData := WriteAt (fileData d) dat' (b' * blockSize d),
                           writeCount := writeCount d + 1\<rparr>)
      else (fst (Disk_WriteBlock d (int b') dat'), d))"
    by (simp add: Disk_WriteBlock_def)
  have N: "\<not> ?w \<Longrightarrow> fst (Disk_WriteBlock d (int b') dat') \<noteq> None"
    by (auto simp: Disk_WriteBlock_def)
  have in_file: "?w \<Longrightarrow> b' * blockSize d + blockSize d \<le> length (fileData d)"
    using assms block_within [of b' nb bs "length (fileData d)"] by (simp add: wf_disk_def)
  show "failed (snd (Disk_WriteBlock d (int b') dat')) = failed d"
    by (subst D) simp
  show "wf_disk bs nb (snd (Disk_WriteBlock d (int b') dat'))"
    using assms in_file by (subst D) (simp add: wf_disk_def length_WriteAt)
  show "blk (snd (Disk_WriteBlock d (int b') dat')) b = blk d b" if "b \<noteq> b'"
    using that in_file blk_WriteAt [of dat' "blockSize d" b' "fileData d" b]
    by (subst D) (simp add: blk_def)
  show "blk (snd (Disk_WriteBlock d (int b') dat')) b' = dat' \<and> \<not> failed d"
    if "fst (Disk_WriteBlock d (int b') dat') = None"
  proof -
    have w: ?w using that N by blast
    then show ?thesis
      using in_file blk_WriteAt [of dat' "blockSize d" b' "fileData d" b']
      by (subst D) (simp add: blk_def)
  qed
qed

lemma stored_iff:
  "stored a l dat \<longleftrightarrow>
     wf_array a \<and> l < capacity a \<and> length dat = arrayBlockSize a \<and>
     (\<forall>(i, b)\<in>set (home_blocks a l). \<not> failed (disks a ! i) \<and> block_at a i b = dat)"
  by (simp add: stored_def list_all_iff)

lemma home_blocks_in_range:
  assumes "wf_array a" and "l < capacity a" and "(i, b) \<in> set (home_blocks a l)"
  shows "i < numDisks a" "b < blocksPerDisk a"
proof -
  have N: "2 \<le> numDisks a" using assms(1) by (simp add: wf_array_def)
  consider (r0) "level a = RAID0" "capacity a = blocksPerDisk a * numDisks a"
    | (r1) "level a = RAID1" "capacity a = blocksPerDisk a"
    | (r5) "level a = RAID5" "capacity a = blocksPerDisk a * (numDisks a - 1)"
    using assms(1) by (auto simp: wf_array_def)
  then have "i < numDisks a \<and> b < blocksPerDisk a"
  proof cases
    case r0
    have "l div numDisks a < blocksPerDisk a"
      using assms(2) r0(2) N by (simp add: less_mult_imp_div_less)
    then show ?thesis using assms(3) r0(1) N by (simp add: home_blocks_def)
  next
    case r1
    then show ?thesis using assms(2,3) by (auto simp: home_blocks_def)
  next
    case r5
    have lb: "l < blocksPerDisk a * (numDisks a - 1)" using assms(2) r5(2) by simp
    show ?thesis using layout_bounds(1,4) [OF N lb] assms(3) r5(1) by (simp add: home_blocks_def)
  qed
  then show "i < numDisks a" "b < blocksPerDisk a" by simp_all
qed

lemma home_blocks_uncounted:
  "uncounted a' = uncounted a \<Longrightarrow> home_blocks a' l = home_blocks a l"
  using uncounted_eqD(1,2) [of a' a] by (simp add: home_blocks_def)

lemma stored_uncounted:
  assumes "uncounted a' = uncounted a" and "stored a l dat"
  shows "stored a' l dat"
proof -
  have w: "wf_array a" and c: "l < capacity a" using assms(2) by (simp_all add: stored_iff)
  have n: "numDisks a = length (disks a)" using w by (simp add: wf_array_def)
  have "\<not> failed (disks a' ! i) \<and> block_at a' i b = dat" if "(i, b) \<in> set (home_blocks a l)" for i b
  proof -
    have "i < length (disks a)" using home_blocks_in_range(1) [OF w c that] n by simp
    from uncounted_view(1,5) [OF assms(1) this] show ?thesis
      using assms(2) that by (auto simp: stored_iff)
  qed
  then show ?thesis
    using assms(2) wf_array_uncounted [OF assms(1)] uncounted_eqD(3,4) [OF assms(1)]
      home_blocks_uncounted [OF assms(1)]
    by (auto simp: stored_iff)
qed

lemma stored_put:
  assumes "stored a l dat" and "i' < numDisks a" and "b' < blocksPerDisk a"
    and "length dat' = arrayBlockSize a" and "(i', b') \<notin> set (home_blocks a l)"
  shows "stored (put a i' b' dat') l dat"
proof -
  have w: "wf_array a" using assms(1) by (simp add: stored_iff)
  note d = wf_disk_nth [OF w assms(2)]
  have len: "length dat' = blockSize (disks a ! i')" using assms(4) d(1) by simp
  note B = block_at_put [OF d(4) len wf_block_within [OF w assms(2,3)]]
  have h: "home_blocks (put a i' b' dat') l = home_blocks a l" by (simp add: home_blocks_def)
  show ?thesis
    unfolding stored_iff h
    using assms(1,5) wf_array_put(1) [OF w assms(2,3,4)] by (auto simp: stored_iff B)
qed

lemma stored_ReadBlock:
  assumes "stored a l dat"
  shows "fst (ReadBlock a (int l)) = Inr dat"
proof -
  have w: "wf_array a" and c: "l < capacity a" using assms by (simp_all add: stored_iff)
  have n: "numDisks a = length (disks a)" and N: "2 \<le> numDisks a" using w by (simp_all add: wf_array_def)
  have h: "\<And>i b. (i, b) \<in> set (home_blocks a l) \<Longrightarrow> readable a i b \<and> block_at a i b = dat"
    using assms home_blocks_in_range [OF w c] wf_readable [OF w] by (auto simp: stored_iff)
  consider (r0) "level a = RAID0" | (r1) "level a = RAID1" | (r5) "level a = RAID5"
    using w by (auto simp: wf_array_def)
  then show ?thesis
  proof cases
    case r0
    let ?i = "l mod numDisks a" and ?b = "l div numDisks a"
    have "readable a ?i ?b \<and> block_at a ?i ?b = dat" using h r0 by (simp add: home_blocks_def)
    then show ?thesis
      using disks_ReadBlock_readable [OF refl, of a ?i ?b] c r0
      by (simp add: ReadBlock_def raid0_readBlock_def Let_def)
  next
    case r1
    have "(0, l) \<in> set (home_blocks a l)" using r1 N by (simp add: home_blocks_def)
    then have r: "readable a 0 l" and v: "block_at a 0 l = dat" using h by simp_all
    from disks_ReadBlock_readable_ex [OF refl r]
    obtain a' where a': "disks_ReadBlock a 0 l = (Inr (block_at a 0 l), a')" by blast
    have "[0..<numDisks a] = 0 # [1..<numDisks a]" using N by (simp add: upt_conv_Cons)
    then have "raid1_readBlock a l = (Inr dat, a')"
      using a' r v by (simp add: raid1_readBlock_def readable_def IsFailed_def)
    then show ?thesis using c r1 by (simp add: ReadBlock_def)
  next
    case r5
    let ?i = "data_disk_of (numDisks a) l" and ?b = "stripe_of (numDisks a) l"
    have "readable a ?i ?b \<and> block_at a ?i ?b = dat" using h r5 by (simp add: home_blocks_def)
    then show ?thesis
      using raid5_readBlock_direct [OF refl n, of l] c r5 by (simp add: ReadBlock_def)
  qed
qed

lemma stored_disks_WriteBlock:
  assumes "stored a l dat" and "i' < numDisks a" and "b' < blocksPerDisk a"
    and "length dat' = arrayBlockSize a" and "(i', b') \<notin> set (home_blocks a l)"
  shows "stored (snd (disks_WriteBlock a i' b' dat')) l dat"
proof (cases rule: disks_WriteBlock_cases [of a i' b' dat'])
  case (ok a')
  have w: "wf_array a" using assms(1) by (simp add: stored_iff)
  have "i' < length (disks a)" using wf_disk_nth(4) [OF w assms(2)] .
  with ok(2) have "writable a i' b' dat'" by simp
  from disks_WriteBlock_writable(2) [OF refl this]
  show ?thesis using stored_put [OF assms] stored_uncounted by blast
next
  case (err e)
  then show ?thesis using assms(1) by simp
qed

lemma raid0_home_distinct:
  assumes "0 < N" and "l' \<noteq> l"
  shows "(l' mod N, l' div N) \<noteq> (l mod N, l div (N::nat))"
proof
  assume "(l' mod N, l' div N) = (l mod N, l div N)"
  then have "l' mod N = l mod N" "l' div N = l div N" by simp_all
  then have "l' = l" by (metis div_mult_mod_eq)
  with assms(2) show False by simp
qed

lemma stored_raid0_other:
  assumes "stored a l dat" and "level a = RAID0" and "l' < capacity a" and "l' \<noteq> l"
    and "length dat' = arrayBlockSize a"
  shows "stored (snd (raid0_writeBlock a l' dat')) l dat"
proof -
  have w: "wf_array a" using assms(1) by (simp add: stored_iff)
  have N: "2 \<le> numDisks a" and c: "capacity a = blocksPerDisk a * numDisks a"
    using w assms(2) by (auto simp: wf_array_def)
  have b: "l' div numDisks a < blocksPerDisk a"
    using assms(3) c N by (simp add: less_mult_imp_div_less)
  have i: "l' mod numDisks a < numDisks a" using N by simp
  have "(l' mod numDisks a, l' div numDisks a) \<notin> set (home_blocks a l)"
    using raid0_home_distinct [of "numDisks a" l' l] N assms(2,4) by (simp add: home_blocks_def)
  from stored_disks_WriteBlock [OF assms(1) i b assms(5) this]
  show ?thesis by (simp add: raid0_writeBlock_def Let_def)
qed

lemma raid1_writeBlock_state:
  "snd (raid1_writeBlock a sched l dat) = raid1_written a l dat"
  by (simp add: raid1_writeBlock_def raid1_written_def Let_def split: prod.split)

lemma raid1_written_view:
  assumes "wf_array a" and a': "a' = raid1_written a l' dat'"
  shows "wf_array a'"
    and "\<And>i. i < numDisks a \<Longrightarrow> failed (disks a' ! i) = failed (disks a ! i)"
    and "\<And>i b. i < numDisks a \<Longrightarrow> b \<noteq> l' \<Longrightarrow> block_at a' i b = block_at a i b"
    and "\<And>i. i < numDisks a \<Longrightarrow> write_ok a l' dat' i \<Longrightarrow>
           block_at a' i l' = dat' \<and> \<not> failed (disks a ! i)"
proof -
  let ?g = "\<lambda>i. snd (Disk_WriteBlock (disks a ! i) (int l') dat')"
  let ?bs = "arrayBlockSize a" and ?nb = "blocksPerDisk a"
  have n: "numDisks a = length (disks a)" and N: "2 \<le> numDisks a" using assms(1) by (simp_all add: wf_array_def)
  have wd: "\<And>i. i < numDisks a \<Longrightarrow> wf_disk ?bs ?nb (disks a ! i)"
    using assms(1) by (simp add: wf_array_def list_all_length)
  have nth: "\<And>i. i < numDisks a \<Longrightarrow> disks a' ! i = ?g i" by (simp add: a' raid1_written_def)
  have wd': "\<And>i. i < numDisks a \<Longrightarrow> wf_disk ?bs ?nb (disks a' ! i)"
    using Disk_WriteBlock_effect(2) [OF wd] nth by simp
  have "numBlocks (disks a' ! 0) = ?nb" using wd' [of 0] N by (simp add: wf_disk_def)
  then have nb: "blocksPerDisk a' = ?nb" by (simp add: blocksPerDisk_def)
  have "list_all (wf_disk ?bs ?nb) (disks a')"
    unfolding list_all_length using wd' by (simp add: a' raid1_written_def)
  then show "wf_array a'"
    using assms(1) unfolding wf_array_def nb by (auto simp: a' raid1_written_def)
  show "\<And>i. i < numDisks a \<Longrightarrow> failed (disks a' ! i) = failed (disks a ! i)"
    using Disk_WriteBlock_effect(1) [OF wd] nth by simp
  show "\<And>i b. i < numDisks a \<Longrightarrow> b \<noteq> l' \<Longrightarrow> block_at a' i b = block_at a i b"
    using Disk_WriteBlock_effect(3) [OF wd] nth by (simp add: block_at_def)
  show "\<And>i. i < numDisks a \<Longrightarrow> write_ok a l' dat' i \<Longrightarrow>
           block_at a' i l' = dat' \<and> \<not> failed (disks a ! i)"
    using Disk_WriteBlock_effect(4) [OF wd] nth by (simp add: block_at_def write_ok_def)
qed

lemma stored_raid1_other:
  assumes "stored a l dat" and "level a = RAID1" and "l' \<noteq> l"
  shows "stored (snd (raid1_writeBlock a sched l' dat')) l dat"
proof -
  have w: "wf_array a" using assms(1) by (simp add: stored_iff)
  note v = raid1_written_view [OF w refl [of "raid1_written a l' dat'"]]
  have f: "level (raid1_written a l' dat') = level a" "numDisks (raid1_written a l' dat') = numDisks a"
    "capacity (raid1_written a l' dat') = capacity a"
    "arrayBlockSize (raid1_written a l' dat') = arrayBlockSize a"
    by (simp_all add: raid1_written_def)
  show ?thesis
    unfolding raid1_writeBlock_state stored_iff
    using assms v(1) v(2) v(3) [OF _ assms(3) [symmetric]]
    by (auto simp: stored_iff home_blocks_def f)
qed

lemma stored_raid5_other:
  assumes "stored a l dat" and "level a = RAID5" and "l' < capacity a" and "l' \<noteq> l"
    and "length dat' = arrayBlockSize a"
  shows "stored (snd (raid5_writeBlock a l' dat')) l dat"
proof -
  let ?N = "numDisks a"
  have w: "wf_array a" and c: "l < capacity a" using assms(1) by (simp_all add: stored_iff)
  note b' = raid5_layout_wf [OF w assms(2,3)]
  note b = raid5_layout_wf [OF w assms(2) c]
  note pw = parity_written_wf [OF w assms(2,3,5)]
  have hb: "home_blocks a l = [(data_disk_of ?N l, stripe_of ?N l)]"
    using assms(2) by (simp add: home_blocks_def)
  have "(parity_disk_of ?N l', stripe_of ?N l') \<noteq> (data_disk_of ?N l, stripe_of ?N l)"
    using b(5) by (auto simp: parity_disk_of_def)
  then have "(parity_disk_of ?N l', stripe_of ?N l') \<notin> set (home_blocks a l)"
    by (simp add: hb)
  from stored_put [OF assms(1) b'(3) b'(1) _ this, of "new_parity a l' dat'"]
  have sp: "stored (parity_written a l' dat') l dat"
    using assms(1,5) by (simp add: parity_written_def)
  have hb': "home_blocks (parity_written a l' dat') l = home_blocks a l"
    using pw(3,5) by (simp add: home_blocks_def)
  have "(data_disk_of ?N l', stripe_of ?N l') \<notin> set (home_blocks (parity_written a l' dat') l)"
    unfolding hb' hb using layout_inj [of ?N l' l] assms(4) by auto
  from stored_put [OF sp _ _ _ this, of dat']
  have sw: "stored (raid5_written a l' dat') l dat"
    using b'(1,4) pw(2,3,7) assms(5) by (simp add: raid5_written_def)
  show ?thesis
  proof (cases "failed (disks a ! data_disk_of ?N l')")
    case True
    from raid5_writeBlock_data_failed(2) [OF w assms(2,3,5) True] sp
    show ?thesis by (rule stored_uncounted)
  next
    case False
    from raid5_writeBlock_ok(2) [OF w assms(2,3,5) False] sw
    show ?thesis by (rule stored_uncounted)
  qed
qed

lemma stored_WriteBlock_other:
  assumes "stored a l dat" and "lbid \<noteq> int l"
  shows "stored (snd (WriteBlock a sched lbid dat')) l dat"
proof (cases "lbid < 0 \<or> lbid \<ge> int (capacity a) \<or> length dat' \<noteq> arrayBlockSize a")
  case True
  then have "snd (WriteBlock a sched lbid dat') = a" by (auto simp: WriteBlock_def)
  then show ?thesis using assms(1) by simp
next
  case False
  then have c: "nat lbid < capacity a" and len: "length dat' = arrayBlockSize a"
    and ne: "nat lbid \<noteq> l" using assms(2) by auto
  have w: "wf_array a" using assms(1) by (simp add: stored_iff)
  consider (r0) "level a = RAID0" | (r1) "level a = RAID1" | (r5) "level a = RAID5"
    using w by (auto simp: wf_array_def)
  then show ?thesis
  proof cases
    case r0
    then show ?thesis
      using False stored_raid0_other [OF assms(1) r0 c ne len] by (simp add: WriteBlock_def)
  next
    case r1
    then show ?thesis
      using False stored_raid1_other [OF assms(1) r1 ne] by (simp add: WriteBlock_def)
  next
    case r5
    then show ?thesis
      using False stored_raid5_other [OF assms(1) r5 c ne len] by (simp add: WriteBlock_def)
  qed
qed

lemma stored_run:
  assumes "stored a l dat" and "\<forall>x\<in>set ops. no_write_to (int l) x"
  shows "stored (run a ops) l dat"
  using assms
proof (induction ops arbitrary: a)
  case Nil
  then show ?case by simp
next
  case (Cons x ops)
  have "stored (apply_op a x) l dat"
  proof (cases x)
    case (Write sched lbid dat')
    then have "lbid \<noteq> int l" using Cons.prems(2) by simp
    from stored_WriteBlock_other [OF Cons.prems(1) this] show ?thesis using Write by simp
  next
    case (Read lbid)
    have "uncounted (snd (ReadBlock a lbid)) = uncounted a" by simp
    from stored_uncounted [OF this Cons.prems(1)] show ?thesis using Read by simp
  qed
  then show ?case using Cons.IH Cons.prems(2) by simp
qed

lemma stored_after_raid0:
  assumes "wf_array a" and "level a = RAID0" and "l < capacity a" and "length dat = arrayBlockSize a"
    and "fst (raid0_writeBlock a l dat) = None"
  shows "stored (snd (raid0_writeBlock a l dat)) l dat"
proof -
  let ?i = "l mod numDisks a" and ?b = "l div numDisks a"
  have N: "2 \<le> numDisks a" and c: "capacity a = blocksPerDisk a * numDisks a"
    using assms(1,2) by (auto simp: wf_array_def)
  have b: "?b < blocksPerDisk a" using assms(3) c N by (simp add: less_mult_imp_div_less)
  have i: "?i < numDisks a" using N by simp
  note d = wf_disk_nth [OF assms(1) i]
  have W: "raid0_writeBlock a l dat = disks_WriteBlock a ?i ?b dat"
    by (simp add: raid0_writeBlock_def Let_def)
  show ?thesis
  proof (cases rule: disks_WriteBlock_cases [of a ?i ?b dat])
    case (ok a')
    then have wr: "writable a ?i ?b dat" using d(4) by simp
    have len: "length dat = blockSize (disks a ! ?i)" using assms(4) d(1) by simp
    note B = block_at_put [OF d(4) len wf_block_within [OF assms(1) i b]]
    have "stored (put a ?i ?b dat) l dat"
      unfolding stored_iff
      using wf_array_put(1) [OF assms(1) i b assms(4)] assms(2,3,4) wr
      by (simp add: home_blocks_def B writable_def)
    with disks_WriteBlock_writable(2) [OF refl wr] show ?thesis
      unfolding W by (rule stored_uncounted)
  next
    case (err e)
    then show ?thesis using assms(5) unfolding W by simp
  qed
qed

lemma stored_after_raid1:
  assumes "wf_array a" and "level a = RAID1" and "l < capacity a" and "length dat = arrayBlockSize a"
    and "mset sched = mset [0..<numDisks a]"
    and "fst (raid1_writeBlock a sched l dat) = None"
  shows "stored (snd (raid1_writeBlock a sched l dat)) l dat"
proof -
  have N: "2 \<le> numDisks a" using assms(1) by (simp add: wf_array_def)
  note O = raid1_writeBlock_outcomes [OF assms(5), of l dat]
  have all_ok: "\<forall>i<numDisks a. write_ok a l dat i"
  proof (rule ccontr)
    assume "\<not> (\<forall>i<numDisks a. write_ok a l dat i)"
    then have bad: "\<exists>j<numDisks a. \<not> write_ok a l dat j" by simp
    show False
    proof (cases "\<exists>i<numDisks a. write_ok a l dat i")
      case True
      with bad O have "\<exists>k fd. fst (raid1_writeBlock a sched l dat) = Some (DegradedWrite k (numDisks a) fd)"
        by blast
      with assms(6) show False by auto
    next
      case False
      then have "(\<forall>i<numDisks a. \<not> write_ok a l dat i) \<and> 0 < numDisks a" using N by simp
      with O have "\<exists>e. fst (raid1_writeBlock a sched l dat) = Some (AllReplicasFailed e)"
        by blast
      with assms(6) show False by auto
    qed
  qed
  note v = raid1_written_view [OF assms(1) refl [of "raid1_written a l dat"]]
  have f: "level (raid1_written a l dat) = level a" "numDisks (raid1_written a l dat) = numDisks a"
    "capacity (raid1_written a l dat) = capacity a"
    "arrayBlockSize (raid1_written a l dat) = arrayBlockSize a"
    by (simp_all add: raid1_written_def)
  show ?thesis
    unfolding raid1_writeBlock_state stored_iff
    using assms(2,3,4) v(1) v(2) v(4) all_ok
    by (auto simp: home_blocks_def f)
qed

lemma stored_after_raid5:
  assumes "wf_array a" and "level a = RAID5" and "l < capacity a" and "length dat = arrayBlockSize a"
    and "fst (raid5_writeBlock a l dat) = None"
  shows "stored (snd (raid5_writeBlock a l dat)) l dat"
proof -
  let ?dd = "data_disk_of (numDisks a) l" and ?s = "stripe_of (numDisks a) l"
  have nf: "\<not> failed (disks a ! ?dd)"
  proof
    assume "failed (disks a ! ?dd)"
    from raid5_writeBlock_data_failed(1) [OF assms(1-4) this] assms(5) show False by simp
  qed
  note rw = raid5_written_wf [OF assms(1-4)]
  have f: "level (raid5_written a l dat) = level a" "numDisks (raid5_written a l dat) = numDisks a"
    "capacity (raid5_written a l dat) = capacity a"
    "arrayBlockSize (raid5_written a l dat) = arrayBlockSize a"
    by (simp_all add: raid5_written_def parity_written_def)
  have "stored (raid5_written a l dat) l dat"
    unfolding stored_iff
    using rw(1,3) assms(2,3,4) nf block_at_raid5_written [OF assms(1-4)]
    by (simp add: home_blocks_def f)
  with raid5_writeBlock_ok(2) [OF assms(1-4) nf] show ?thesis by (rule stored_uncounted)
qed

text \<open>
  C4. At every level, for a logical block in \<open>[0, capacity)\<close> and a buffer of the block
  size: after a \<open>WriteBlock\<close> that returned success, and then any sequence of reads
  and of writes to other logical blocks (successful or not; no disk is marked failed
  in between), \<open>ReadBlock\<close> of the block succeeds and returns the data written. At
  level 1 the results of the disks may arrive in any order.
\<close>

theorem write_then_read:
  assumes "wf_array a" and "0 \<le> lbid" and "lbid < int (capacity a)"
    and "length dat = arrayBlockSize a"
    and "level a = RAID1 \<longrightarrow> mset sched = mset [0..<numDisks a]"
    and "fst (WriteBlock a sched lbid dat) = None"
    and "\<forall>x\<in>set ops. no_write_to lbid x"
  shows "fst (ReadBlock (run (snd (WriteBlock a sched lbid dat)) ops) lbid) = Inr dat"
proof -
  obtain l where l: "lbid = int l" using assms(2) by (metis nonneg_int_cases)
  have c: "l < capacity a" using assms(3) l by simp
  consider (r0) "level a = RAID0" | (r1) "level a = RAID1" | (r5) "level a = RAID5"
    using assms(1) by (auto simp: wf_array_def)
  then have "stored (snd (WriteBlock a sched (int l) dat)) l dat"
  proof cases
    case r0
    then have W: "WriteBlock a sched (int l) dat = raid0_writeBlock a l dat"
      using c assms(4) by (simp add: WriteBlock_def)
    show ?thesis
      unfolding W using stored_after_raid0 [OF assms(1) r0 c assms(4)] assms(6) l W by simp
  next
    case r1
    then have W: "WriteBlock a sched (int l) dat = raid1_writeBlock a sched l dat"
      using c assms(4) by (simp add: WriteBlock_def)
    show ?thesis
      unfolding W using stored_after_raid1 [OF assms(1) r1 c assms(4)] assms(5,6) r1 l W by simp
  next
    case r5
    then have W: "WriteBlock a sched (int l) dat = raid5_writeBlock a l dat"
      using c assms(4) by (simp add: WriteBlock_def)
    show ?thesis
      unfolding W using stored_after_raid5 [OF assms(1) r5 c assms(4)] assms(6) l W by simp
  qed
  from stored_run [OF this] assms(7) have "stored (run (snd (WriteBlock a sched (int l) dat)) ops) l dat"
    unfolding l by simp
  then show ?thesis unfolding l by (rule stored_ReadBlock)
qed

theorem write_then_read_witness:
  "fst (ReadBlock (run (snd (WriteBlock parity3 [] 1 [7])) [Write [] 0 [3], Read 0, Write [] 3 [9]]) 1) = Inr [7] \<and>
   fst (ReadBlock (run (snd (WriteBlock mirror2 [1, 0] 1 [7])) [Write [0, 1] 0 [3], Read 1]) 1) = Inr [7] \<and>
   fst (ReadBlock (run (snd (WriteBlock stripe_pair [] 3 [7])) [Write [] 2 [3], Write [] 1 [4]]) 3) = Inr [7]"
proof -
  have p: "mset [1, 0] = mset [0..<2::nat]" by (simp add: upt_rec add_mset_commute)
  have a1: "wf_array parity3" by code_simp
  have a2: "(0::int) \<le> 1" by simp
  have a3: "1 < int (capacity parity3)" by code_simp
  have a4: "length [7::byte] = arrayBlockSize parity3" by code_simp
  have a5: "level parity3 = RAID1 \<longrightarrow> mset [] = mset [0..<numDisks parity3]"
    by (simp add: parity3_def array_of_def)
  have a6: "fst (WriteBlock parity3 [] 1 [7]) = None" by code_simp
  have a7: "\<forall>x\<in>set [Write [] 0 [3], Read 0, Write [] 3 [9]]. no_write_to 1 x" by simp
  have n1: "numDisks mirror2 = 2" by code_simp
  have b1: "wf_array mirror2" by code_simp
  have b3: "1 < int (capacity mirror2)" by code_simp
  have b4: "length [7::byte] = arrayBlockSize mirror2" by code_simp
  have b5: "level mirror2 = RAID1 \<longrightarrow> mset [1, 0] = mset [0..<numDisks mirror2]"
    unfolding n1 using p by simp
  have b6: "fst (WriteBlock mirror2 [1, 0] 1 [7]) = None" by code_simp
  have b7: "\<forall>x\<in>set [Write [0, 1] 0 [3], Read 1]. no_write_to 1 x" by simp
  have c1: "wf_array stripe_pair" by code_simp
  have c2: "(0::int) \<le> 3" by simp
  have c3: "3 < int (capacity stripe_pair)" by code_simp
  have c4: "length [7::byte] = arrayBlockSize stripe_pair" by code_simp
  have c5: "level stripe_pair = RAID1 \<longrightarrow> mset [] = mset [0..<numDisks stripe_pair]"
    by (simp add: stripe_pair_def array_of_def)
  have c6: "fst (WriteBlock stripe_pair [] 3 [7]) = None" by code_simp
  have c7: "\<forall>x\<in>set [Write [] 2 [3], Write [] 1 [4]]. no_write_to 3 x" by simp
  from write_then_read [OF a1 a2 a3 a4 a5 a6 a7] write_then_read [OF b1 a2 b3 b4 b5 b6 b7]
    write_then_read [OF c1 c2 c3 c4 c5 c6 c7]
  show ?thesis by blast
qed

subsection \<open>Rebuild: the loops\<close>

lemma rebuild_offsets_Cons:
  "rebuild_offsets a s d p (off # offs) =
     (if skip_parity p off = d then rebuild_data_block a s d p
      else rebuild_offsets a s d p offs)"
proof (cases "p \<le> off")
  case True
  then have e: "skip_parity p off = Suc off" by (simp add: skip_parity_def)
  show ?thesis unfolding e rebuild_data_block_def using True by (simp add: Let_def)
next
  case False
  then have e: "skip_parity p off = off" by (simp add: skip_parity_def)
  show ?thesis unfolding e rebuild_data_block_def using False by (simp add: Let_def)
qed

declare rebuild_offsets.simps(2) [simp del]

lemma rebuild_offsets_found:
  "\<exists>off\<in>set offs. skip_parity p off = d \<Longrightarrow>
   rebuild_offsets a s d p offs = rebuild_data_block a s d p"
  by (induction offs) (auto simp: rebuild_offsets_Cons)

lemma rebuild_offsets_all:
  assumes "d < N" and "p < N" and "d \<noteq> p"
  shows "rebuild_offsets a s d p [0..<N - 1] = rebuild_data_block a s d p"
proof -
  have "d \<in> skip_parity p ` {0..<N - 1}"
    using skip_parity_image [OF assms(2)] assms(1,3) by simp
  then have "\<exists>off\<in>set [0..<N - 1]. skip_parity p off = d" by auto
  then show ?thesis by (rule rebuild_offsets_found)
qed

lemma rebuild_stripes_Cons:
  assumes "d < numDisks a"
  shows "rebuild_stripes a d (s # ss) =
     (case (if d = s mod numDisks a then
               (case rebuildParityBlock a s d of
                  (Some err, a') \<Rightarrow> (Some (RebuildFailedAt s err), disks_SetFailed a' d True)
                | (None, a') \<Rightarrow> (None, a'))
            else rebuild_data_block a s d (s mod numDisks a)) of
        (Some err, a') \<Rightarrow> (Some err, a')
      | (None, a') \<Rightarrow> rebuild_stripes a' d ss)"
proof -
  have p: "s mod numDisks a < numDisks a" using assms by simp
  show ?thesis
  proof (cases "d = s mod numDisks a")
    case True
    then show ?thesis by (simp add: Let_def split: prod.split option.split)
  next
    case False
    then show ?thesis
      using rebuild_offsets_all [OF assms p False, of a s] by (simp add: Let_def)
  qed
qed

declare rebuild_stripes.simps(2) [simp del]

subsection \<open>Rebuild: what stays as it was\<close>

lemma same_others_refl [simp]: "same_others d a a"
  by (simp add: same_others_def)

lemma same_others_trans:
  "same_others d a a' \<Longrightarrow> same_others d a' a'' \<Longrightarrow> same_others d a a''"
  by (simp add: same_others_def)

lemma same_others_uncounted:
  assumes "uncounted a' = uncounted a"
  shows "same_others d a a'"
  unfolding same_others_def
  using uncounted_eqD(2,5) [OF assms] uncounted_nth [OF assms] by simp

lemma same_others_update:
  "same_others d a (a\<lparr>disks := (disks a)[d := x]\<rparr>)"
  by (simp add: same_others_def)

lemma same_others_disks_WriteBlock: "same_others d a (snd (disks_WriteBlock a d s dat))"
  by (cases "Disk_WriteBlock (disks a ! d) (int s) dat")
    (simp add: disks_WriteBlock_def same_others_update)

lemma same_others_SetFailed: "same_others d a (disks_SetFailed a d f)"
  by (simp add: disks_SetFailed_def same_others_update)

lemma same_others_rebuildParityBlock: "same_others d a (snd (rebuildParityBlock a s d))"
proof -
  let ?L = "rebuildParity_loop a s d (replicate (arrayBlockSize a) 0) [0..<numDisks a]"
  have u: "same_others d a (snd ?L)" by (intro same_others_uncounted) simp
  show ?thesis
  proof (cases "fst ?L")
    case (Inl e)
    then have "rebuildParityBlock a s d = (Some e, snd ?L)"
      by (cases ?L) (simp add: rebuildParityBlock_def)
    then show ?thesis using u by simp
  next
    case (Inr par)
    then have "rebuildParityBlock a s d = disks_WriteBlock (snd ?L) d s par"
      by (cases ?L) (simp add: rebuildParityBlock_def)
    then show ?thesis
      using same_others_trans [OF u same_others_disks_WriteBlock] by simp
  qed
qed

lemma same_others_rebuild_data_block: "same_others d a (snd (rebuild_data_block a s d p))"
proof -
  let ?R = "reconstructBlock a s d p"
  have u: "same_others d a (snd ?R)" by (intro same_others_uncounted) simp
  show ?thesis
  proof (cases "fst ?R")
    case (Inl e)
    then have "rebuild_data_block a s d p =
        (Some (RebuildReconstructFailed s e), disks_SetFailed (snd ?R) d True)"
      by (cases ?R) (simp add: rebuild_data_block_def)
    then show ?thesis using same_others_trans [OF u same_others_SetFailed] by simp
  next
    case (Inr r)
    let ?W = "disks_WriteBlock (snd ?R) d s r"
    have w: "same_others d a (snd ?W)"
      using same_others_trans [OF u same_others_disks_WriteBlock] .
    have "snd (rebuild_data_block a s d p) = snd ?W \<or>
          snd (rebuild_data_block a s d p) = disks_SetFailed (snd ?W) d True"
      using Inr by (cases ?R; cases ?W) (auto simp: rebuild_data_block_def split: option.split)
    then show ?thesis
      using w same_others_trans [OF w same_others_SetFailed] by auto
  qed
qed

subsection \<open>C7: a rebuild that fails marks the disk failed again\<close>

lemma rebuild_stripes_step:
  "d < numDisks a \<Longrightarrow>
   rebuild_stripes a d (s # ss) =
     (case rebuild_step a s d of
        (Some err, a') \<Rightarrow> (Some err, a')
      | (None, a') \<Rightarrow> rebuild_stripes a' d ss)"
  by (simp add: rebuild_stripes_Cons rebuild_step_def)

lemma same_others_rebuild_step: "same_others d a (snd (rebuild_step a s d))"
proof (cases "d = s mod numDisks a")
  case True
  let ?P = "rebuildParityBlock a s d"
  have p: "same_others d a (snd ?P)" by (rule same_others_rebuildParityBlock)
  have "snd (rebuild_step a s d) = snd ?P \<or> snd (rebuild_step a s d) = disks_SetFailed (snd ?P) d True"
    using True by (cases ?P) (auto simp: rebuild_step_def split: option.split)
  then show ?thesis using p same_others_trans [OF p same_others_SetFailed] by auto
next
  case False
  then show ?thesis by (simp add: rebuild_step_def same_others_rebuild_data_block)
qed

lemma failed_SetFailed: "d < length (disks a) \<Longrightarrow> failed (disks (disks_SetFailed a d f) ! d) = f"
  by (simp add: disks_SetFailed_def SetFailed_def)

lemma length_disks_WriteBlock [simp]:
  "length (disks (snd (disks_WriteBlock a i s dat))) = length (disks a)"
  by (cases "Disk_WriteBlock (disks a ! i) (int s) dat") (simp add: disks_WriteBlock_def)

lemma length_uncounted_eq: "uncounted a' = uncounted a \<Longrightarrow> length (disks a') = length (disks a)"
  by (rule uncounted_eqD)

lemma rebuild_data_block_error_flag:
  assumes "d < length (disks a)" and "fst (rebuild_data_block a s d p) = Some e"
  shows "failed (disks (snd (rebuild_data_block a s d p)) ! d)"
proof -
  let ?R = "reconstructBlock a s d p"
  have lR: "d < length (disks (snd ?R))"
    using assms(1) length_uncounted_eq [of "snd ?R" a] by simp
  show ?thesis
  proof (cases "fst ?R")
    case (Inl err)
    then have "rebuild_data_block a s d p =
        (Some (RebuildReconstructFailed s err), disks_SetFailed (snd ?R) d True)"
      by (cases ?R) (simp add: rebuild_data_block_def)
    then show ?thesis using failed_SetFailed [OF lR] by simp
  next
    case (Inr r)
    let ?W = "disks_WriteBlock (snd ?R) d s r"
    have lW: "d < length (disks (snd ?W))" using lR by simp
    show ?thesis
    proof (cases "fst ?W")
      case None
      then have "fst (rebuild_data_block a s d p) = None"
        using Inr by (cases ?R; cases ?W) (simp add: rebuild_data_block_def)
      with assms(2) show ?thesis by simp
    next
      case (Some err)
      then have "rebuild_data_block a s d p = (Some (RebuildWriteFailed s err), disks_SetFailed (snd ?W) d True)"
        using Inr by (cases ?R; cases ?W) (simp add: rebuild_data_block_def)
      then show ?thesis using failed_SetFailed [OF lW] by simp
    qed
  qed
qed

lemma rebuild_step_error_flag:
  assumes "d < length (disks a)" and "fst (rebuild_step a s d) = Some e"
  shows "failed (disks (snd (rebuild_step a s d)) ! d)"
proof (cases "d = s mod numDisks a")
  case True
  let ?P = "rebuildParityBlock a s d"
  have "length (disks (snd ?P)) = length (disks a)"
    using same_others_rebuildParityBlock [of d a s] by (simp add: same_others_def)
  then have lP: "d < length (disks (snd ?P))" using assms(1) by simp
  show ?thesis
  proof (cases "fst ?P")
    case None
    then have "fst (rebuild_step a s d) = None"
      using True by (cases ?P) (simp add: rebuild_step_def)
    with assms(2) show ?thesis by simp
  next
    case (Some err)
    then have "rebuild_step a s d = (Some (RebuildFailedAt s err), disks_SetFailed (snd ?P) d True)"
      using True by (cases ?P) (simp add: rebuild_step_def)
    then show ?thesis using failed_SetFailed [OF lP] by simp
  qed
next
  case False
  then show ?thesis
    using rebuild_data_block_error_flag [OF assms(1), of s "s mod numDisks a" e] assms(2)
    by (simp add: rebuild_step_def)
qed

lemma rebuild_stripes_error_flag:
  assumes "d < numDisks a" and "d < length (disks a)" and "fst (rebuild_stripes a d ss) = Some e"
  shows "failed (disks (snd (rebuild_stripes a d ss)) ! d)"
  using assms
proof (induction ss arbitrary: a)
  case Nil
  then show ?case by simp
next
  case (Cons s ss)
  let ?S = "rebuild_step a s d"
  note so = same_others_rebuild_step [of d a s]
  show ?case
  proof (cases "fst ?S")
    case None
    then have R: "rebuild_stripes a d (s # ss) = rebuild_stripes (snd ?S) d ss"
      using rebuild_stripes_step [OF Cons.prems(1)] by (cases ?S) simp
    have "d < numDisks (snd ?S)" "d < length (disks (snd ?S))"
      using so Cons.prems(1,2) by (simp_all add: same_others_def)
    from Cons.IH [OF this] Cons.prems(3) show ?thesis unfolding R by simp
  next
    case (Some err)
    then have R: "rebuild_stripes a d (s # ss) = (Some err, snd ?S)"
      using rebuild_stripes_step [OF Cons.prems(1)] by (cases ?S) simp
    show ?thesis unfolding R using rebuild_step_error_flag [OF Cons.prems(2) Some] by simp
  qed
qed

lemma read_fails_iff: "read_fails a i s \<longleftrightarrow> (\<exists>e. fst (Disk_ReadBlock (disks a ! i) (int s)) = Inl e)"
  by (cases "fst (Disk_ReadBlock (disks a ! i) (int s))") (simp_all add: read_fails_def)

lemma fst_Disk_ReadBlock_uncounted:
  assumes "uncounted_disk d = uncounted_disk d'"
  shows "fst (Disk_ReadBlock d b) = fst (Disk_ReadBlock d' b)"
  using uncounted_disk_eqD(1-4) [OF assms]
  by (simp add: Disk_ReadBlock_def split: option.split)

lemma read_fails_same_others:
  assumes "same_others d a a'" and "i < length (disks a)" and "i \<noteq> d"
  shows "read_fails a' i s = read_fails a i s"
proof -
  have "uncounted_disk (disks a' ! i) = uncounted_disk (disks a ! i)"
    using assms by (simp add: same_others_def)
  from fst_Disk_ReadBlock_uncounted [OF this] show ?thesis by (simp add: read_fails_def)
qed

lemma read_fails_uncounted:
  assumes "uncounted a' = uncounted a" and "i < length (disks a)"
  shows "read_fails a' i s = read_fails a i s"
  using fst_Disk_ReadBlock_uncounted [OF uncounted_nth [OF assms]] by (simp add: read_fails_def)

lemma read_fails_disks_ReadBlock:
  assumes "read_fails a i s"
  obtains e where "disks_ReadBlock a i s = (Inl e, a)"
  using assms disks_ReadBlock_err unfolding read_fails_iff by blast

lemma read_ok_not_fails:
  assumes "disks_ReadBlock a i s = (Inr dat, a')"
  shows "\<not> read_fails a i s"
proof
  assume "read_fails a i s"
  then obtain e where "disks_ReadBlock a i s = (Inl e, a)" by (rule read_fails_disks_ReadBlock)
  with assms show False by simp
qed

lemma rebuildParity_loop_fails:
  assumes "\<exists>i\<in>set is. i \<noteq> p \<and> i < length (disks a) \<and> read_fails a i s"
  shows "\<exists>e. fst (rebuildParity_loop a s p acc is) = Inl e"
  using assms
proof (induction "is" arbitrary: a acc)
  case Nil
  then show ?case by simp
next
  case (Cons j js)
  show ?case
  proof (cases "j = p")
    case True
    then have "\<exists>i\<in>set js. i \<noteq> p \<and> i < length (disks a) \<and> read_fails a i s"
      using Cons.prems by auto
    from Cons.IH [OF this] show ?thesis using True by simp
  next
    case False
    show ?thesis
    proof (cases rule: disks_ReadBlock_cases [of a j s])
      case (err e)
      then show ?thesis using False by simp
    next
      case (ok dat a')
      have nj: "\<not> read_fails a j s" using ok(1) by (rule read_ok_not_fails)
      then obtain i where i: "i \<in> set js" "i \<noteq> p" "i < length (disks a)" "read_fails a i s"
        using Cons.prems by auto
      then have "\<exists>i\<in>set js. i \<noteq> p \<and> i < length (disks a') \<and> read_fails a' i s"
        using read_fails_uncounted [OF ok(2) i(3)] length_uncounted_eq [OF ok(2)] by auto
      from Cons.IH [OF this] show ?thesis using False ok(1) by simp
    qed
  qed
qed

lemma reconstruct_loop_fails:
  assumes "\<exists>i\<in>set is. i \<noteq> p \<and> i \<noteq> m \<and> i < length (disks a) \<and> read_fails a i s"
  shows "\<exists>e. fst (reconstruct_loop a s m p acc is) = Inl e"
  using assms
proof (induction "is" arbitrary: a acc)
  case Nil
  then show ?case by simp
next
  case (Cons j js)
  show ?case
  proof (cases "j = p \<or> j = m")
    case True
    then have "\<exists>i\<in>set js. i \<noteq> p \<and> i \<noteq> m \<and> i < length (disks a) \<and> read_fails a i s"
      using Cons.prems by auto
    from Cons.IH [OF this] show ?thesis using True by auto
  next
    case False
    show ?thesis
    proof (cases "failed (disks a ! j)")
      case True
      then show ?thesis using False by (simp add: IsFailed_def)
    next
      case nf: False
      show ?thesis
      proof (cases rule: disks_ReadBlock_cases [of a j s])
        case (err e)
        then show ?thesis using False nf by (simp add: IsFailed_def)
      next
        case (ok dat a')
        have nj: "\<not> read_fails a j s" using ok(1) by (rule read_ok_not_fails)
        then obtain i where i: "i \<in> set js" "i \<noteq> p" "i \<noteq> m" "i < length (disks a)" "read_fails a i s"
          using Cons.prems by auto
        then have "\<exists>i\<in>set js. i \<noteq> p \<and> i \<noteq> m \<and> i < length (disks a') \<and> read_fails a' i s"
          using read_fails_uncounted [OF ok(2) i(4)] length_uncounted_eq [OF ok(2)] by auto
        from Cons.IH [OF this] show ?thesis using False nf ok(1) by (simp add: IsFailed_def)
      qed
    qed
  qed
qed

lemma reconstructBlock_fails:
  assumes "numDisks a = length (disks a)" and "i < numDisks a" and "i \<noteq> m" and "read_fails a i s"
  shows "\<exists>e. fst (reconstructBlock a s m p) = Inl e"
proof (cases "failed (disks a ! p)")
  case True
  then show ?thesis by (simp add: reconstructBlock_def IsFailed_def)
next
  case nf: False
  show ?thesis
  proof (cases rule: disks_ReadBlock_cases [of a p s])
    case (err e)
    then show ?thesis using nf by (simp add: reconstructBlock_def IsFailed_def)
  next
    case (ok dat a')
    have "\<not> read_fails a p s" using ok(1) by (rule read_ok_not_fails)
    then have ip: "i \<noteq> p" using assms(4) by auto
    have il: "i < length (disks a)" using assms(1,2) by simp
    have "\<exists>j\<in>set [0..<numDisks a]. j \<noteq> p \<and> j \<noteq> m \<and> j < length (disks a') \<and> read_fails a' j s"
      using read_fails_uncounted [OF ok(2) il] length_uncounted_eq [OF ok(2)] assms(2,3,4) ip il
      by auto
    from reconstruct_loop_fails [OF this] show ?thesis
      using nf ok(1) by (simp add: reconstructBlock_def IsFailed_def)
  qed
qed

lemma rebuild_step_fails:
  assumes "numDisks a = length (disks a)" and "i < numDisks a" and "i \<noteq> d" and "read_fails a i s"
  shows "\<exists>e. fst (rebuild_step a s d) = Some e"
proof (cases "d = s mod numDisks a")
  case True
  have "\<exists>j\<in>set [0..<numDisks a]. j \<noteq> d \<and> j < length (disks a) \<and> read_fails a j s"
    using assms by auto
  from rebuildParity_loop_fails [OF this, of "replicate (arrayBlockSize a) 0"]
  obtain e where "fst (rebuildParity_loop a s d (replicate (arrayBlockSize a) 0) [0..<numDisks a]) = Inl e"
    by blast
  then have "fst (rebuildParityBlock a s d) = Some e"
    by (cases "rebuildParity_loop a s d (replicate (arrayBlockSize a) 0) [0..<numDisks a]")
      (simp add: rebuildParityBlock_def)
  then show ?thesis using True by (cases "rebuildParityBlock a s d") (simp add: rebuild_step_def)
next
  case False
  from reconstructBlock_fails [OF assms, of "s mod numDisks a"]
  obtain e where "fst (reconstructBlock a s d (s mod numDisks a)) = Inl e" by blast
  then have "fst (rebuild_data_block a s d (s mod numDisks a)) = Some (RebuildReconstructFailed s e)"
    by (cases "reconstructBlock a s d (s mod numDisks a)") (simp add: rebuild_data_block_def)
  then show ?thesis using False by (simp add: rebuild_step_def)
qed

lemma rebuild_stripes_fails:
  assumes "numDisks a = length (disks a)" and "d < numDisks a" and "i < numDisks a" and "i \<noteq> d"
    and "s0 \<in> set ss" and "read_fails a i s0"
  shows "\<exists>e. fst (rebuild_stripes a d ss) = Some e"
  using assms
proof (induction ss arbitrary: a)
  case Nil
  then show ?case by simp
next
  case (Cons s ss)
  let ?S = "rebuild_step a s d"
  note so = same_others_rebuild_step [of d a s]
  show ?case
  proof (cases "fst ?S")
    case (Some err)
    then show ?thesis using rebuild_stripes_step [OF Cons.prems(2)] by (cases ?S) simp
  next
    case None
    then have R: "rebuild_stripes a d (s # ss) = rebuild_stripes (snd ?S) d ss"
      using rebuild_stripes_step [OF Cons.prems(2)] by (cases ?S) simp
    have "s \<noteq> s0"
      using rebuild_step_fails [OF Cons.prems(1,3,4), of s] Cons.prems(6) None by auto
    then have in_rest: "s0 \<in> set ss" using Cons.prems(5) by simp
    have il: "i < length (disks a)" using Cons.prems(1,3) by simp
    have n: "numDisks (snd ?S) = length (disks (snd ?S))" "d < numDisks (snd ?S)" "i < numDisks (snd ?S)"
      using so Cons.prems(1,2,3) by (simp_all add: same_others_def)
    have "read_fails (snd ?S) i s0"
      using read_fails_same_others [OF so il Cons.prems(4)] Cons.prems(6) by simp
    from Cons.IH [OF n Cons.prems(4) in_rest this] show ?thesis unfolding R .
  qed
qed

text \<open>
  C7. \<open>RebuildDisk d\<close> on a level-5 array, for a disk \<open>d\<close> in range that is marked
  failed: whenever the rebuild returns an error, disk \<open>d\<close> is marked failed in the array
  it leaves (the flag was cleared on entry); and it does return an error whenever some
  other disk is marked failed or returns a read error at a stripe of the rebuild.
\<close>

theorem rebuild_failure_restores_flag:
  assumes "level a = RAID5" and "numDisks a = length (disks a)"
    and "0 \<le> d" and "d < int (numDisks a)" and "failed (disks a ! nat d)"
  shows "(\<forall>e. fst (RebuildDisk a d) = Some e \<longrightarrow> failed (disks (snd (RebuildDisk a d)) ! nat d)) \<and>
         ((\<exists>i<numDisks a. i \<noteq> nat d \<and> (\<exists>s<numBlocks (disks a ! nat d).
              failed (disks a ! i) \<or> read_fails a i s))
          \<longrightarrow> (\<exists>e. fst (RebuildDisk a d) = Some e \<and> failed (disks (snd (RebuildDisk a d)) ! nat d)))"
proof -
  let ?d = "nat d"
  let ?a1 = "disks_SetFailed a ?d False"
  let ?ss = "[0..<numBlocks (disks a ! ?d)]"
  have dl: "?d < numDisks a" "?d < length (disks a)" using assms(2,3,4) by simp_all
  have nb: "numBlocks (disks ?a1 ! ?d) = numBlocks (disks a ! ?d)"
    using dl(2) by (simp add: disks_SetFailed_def SetFailed_def)
  have R: "RebuildDisk a d = rebuild_stripes ?a1 ?d ?ss"
    using assms(1,3,4,5) nb
    by (simp add: RebuildDisk_def raid5_rebuildDisk_def IsFailed_def Capacity_disk_def Let_def)
  note so = same_others_SetFailed [of ?d a False]
  have n1: "numDisks ?a1 = length (disks ?a1)" "?d < numDisks ?a1" "?d < length (disks ?a1)"
    using so assms(2) dl by (simp_all add: same_others_def)
  have A: "\<And>e. fst (RebuildDisk a d) = Some e \<Longrightarrow> failed (disks (snd (RebuildDisk a d)) ! ?d)"
    unfolding R by (rule rebuild_stripes_error_flag [OF n1(2,3)])
  have B: "\<exists>e. fst (RebuildDisk a d) = Some e"
    if "\<exists>i<numDisks a. i \<noteq> ?d \<and> (\<exists>s<numBlocks (disks a ! ?d). failed (disks a ! i) \<or> read_fails a i s)"
  proof -
    from that obtain i s where i: "i < numDisks a" "i \<noteq> ?d" and s: "s < numBlocks (disks a ! ?d)"
      and f: "failed (disks a ! i) \<or> read_fails a i s" by blast
    have "read_fails a i s"
      using f by (auto simp: read_fails_iff Disk_ReadBlock_failed)
    then have rf: "read_fails ?a1 i s"
      using read_fails_same_others [OF so _ i(2)] i(1) assms(2) by simp
    have i1: "i < numDisks ?a1" using so i(1) by (simp add: same_others_def)
    have "s \<in> set ?ss" using s by simp
    from rebuild_stripes_fails [OF n1(1,2) i1 i(2) this rf] show ?thesis unfolding R .
  qed
  show ?thesis using A B by blast
qed

theorem rebuild_failure_restores_flag_witness:
  "fst (RebuildDisk second_failure 1) = Some (RebuildReconstructFailed 0 MultipleFailures) \<and>
   failed (disks (snd (RebuildDisk second_failure 1)) ! 1) \<and>
   fst (RebuildDisk short_disk 1) = Some (RebuildFailedAt 1 (RebuildReadFailed 2 (ReadError 1))) \<and>
   failed (disks (snd (RebuildDisk short_disk 1)) ! 1) \<and>
   map fileData (disks (snd (RebuildDisk short_disk 1))) = [[4, 0], [0, 0], [4]]"
proof -
  have a: "level second_failure = RAID5" "numDisks second_failure = length (disks second_failure)"
    "(0::int) \<le> 1" "1 < int (numDisks second_failure)" "failed (disks second_failure ! nat 1)"
    by (code_simp, code_simp, simp, code_simp, code_simp)
  have b: "level short_disk = RAID5" "numDisks short_disk = length (disks short_disk)"
    "1 < int (numDisks short_disk)" "failed (disks short_disk ! nat 1)"
    by code_simp+
  have a': "(2::nat) < numDisks second_failure" "(2::nat) \<noteq> nat 1"
    "(0::nat) < numBlocks (disks second_failure ! nat 1)" "failed (disks second_failure ! 2)"
    by (code_simp, simp, code_simp, code_simp)
  have b': "(2::nat) < numDisks short_disk" "(1::nat) < numBlocks (disks short_disk ! nat 1)"
    "read_fails short_disk 2 1"
    by code_simp+
  have ea: "fst (RebuildDisk second_failure 1) = Some (RebuildReconstructFailed 0 MultipleFailures)"
    by code_simp
  have eb: "fst (RebuildDisk short_disk 1) = Some (RebuildFailedAt 1 (RebuildReadFailed 2 (ReadError 1)))"
    by code_simp
  have fb: "map fileData (disks (snd (RebuildDisk short_disk 1))) = [[4, 0], [0, 0], [4]]"
    by code_simp
  have "\<exists>i<numDisks second_failure. i \<noteq> nat 1 \<and> (\<exists>s<numBlocks (disks second_failure ! nat 1).
              failed (disks second_failure ! i) \<or> read_fails second_failure i s)"
    using a' by blast
  with rebuild_failure_restores_flag [OF a]
  have A: "failed (disks (snd (RebuildDisk second_failure 1)) ! nat 1)" by blast
  have "\<exists>i<numDisks short_disk. i \<noteq> nat 1 \<and> (\<exists>s<numBlocks (disks short_disk ! nat 1).
              failed (disks short_disk ! i) \<or> read_fails short_disk i s)"
    using b' a'(2) by blast
  with rebuild_failure_restores_flag [OF b(1,2) a(3) b(3,4)]
  have B: "failed (disks (snd (RebuildDisk short_disk 1)) ! nat 1)" by blast
  from A B ea eb fb show ?thesis by simp
qed

subsection \<open>C3: a rebuild that succeeds\<close>

lemma same_but_diskD:
  assumes "same_but_disk d g h"
  shows "level g = level h" "numDisks g = numDisks h" "capacity g = capacity h"
    "arrayBlockSize g = arrayBlockSize h" "length (disks g) = length (disks h)"
    "\<And>j. j < length (disks h) \<Longrightarrow> j \<noteq> d \<Longrightarrow> uncounted_disk (disks g ! j) = uncounted_disk (disks h ! j)"
proof -
  let ?g = "g\<lparr>disks := (disks g)[d := disks h ! d]\<rparr>"
  have e: "uncounted ?g = uncounted h" using assms by (simp add: same_but_disk_def)
  note f = uncounted_eqD [OF e]
  show "level g = level h" using f(1) by simp
  show "numDisks g = numDisks h" using f(2) by simp
  show "capacity g = capacity h" using f(3) by simp
  show "arrayBlockSize g = arrayBlockSize h" using f(4) by simp
  show "length (disks g) = length (disks h)" using f(5) by simp
  fix j assume "j < length (disks h)" "j \<noteq> d"
  then show "uncounted_disk (disks g ! j) = uncounted_disk (disks h ! j)"
    using uncounted_nth [OF e, of j] by simp
qed

lemma same_but_disk_others:
  assumes "same_but_disk d g h" and "j < length (disks h)" and "j \<noteq> d"
  shows "failed (disks g ! j) = failed (disks h ! j)" "block_at g j s = block_at h j s"
  using uncounted_disk_eqD(4,5) [OF same_but_diskD(6) [OF assms]] by (simp_all add: block_at_def)

lemma same_but_disk_update:
  assumes "same_but_disk d g h"
  shows "same_but_disk d (g\<lparr>disks := (disks g)[d := x]\<rparr>) h"
  using assms by (simp add: same_but_disk_def)

lemma same_but_disk_uncounted:
  assumes "uncounted r = uncounted g" and "same_but_disk d g h" and "d < length (disks h)"
  shows "same_but_disk d r h"
proof -
  let ?r = "r\<lparr>disks := (disks r)[d := disks h ! d]\<rparr>" and ?g = "g\<lparr>disks := (disks g)[d := disks h ! d]\<rparr>"
  note l = same_but_diskD(5) [OF assms(2)]
  have "uncounted ?r = uncounted ?g"
  proof (rule uncountedI)
    show "length (disks ?r) = length (disks ?g)" using uncounted_eqD(5) [OF assms(1)] by simp
    fix i assume "i < length (disks ?g)"
    then have i: "i < length (disks g)" by simp
    show "uncounted_disk (disks ?r ! i) = uncounted_disk (disks ?g ! i)"
      using uncounted_nth [OF assms(1) i] i uncounted_eqD(5) [OF assms(1)] by (cases "i = d") simp_all
  qed (use uncounted_eqD [OF assms(1)] uncounted_more [OF assms(1)] in simp_all)
  then show ?thesis using assms(2) by (simp add: same_but_disk_def)
qed

text \<open>
  An array that differs from a well-formed one in one disk, which has the sizes of the
  array and a file that holds its blocks, is well formed.
\<close>

lemma same_but_disk_wf:
  assumes "wf_array h" and "d < numDisks h" and "same_but_disk d g h"
    and "wf_disk (arrayBlockSize h) (blocksPerDisk h) (disks g ! d)"
  shows "wf_array g" and "blocksPerDisk g = blocksPerDisk h"
proof -
  note e = same_but_diskD [OF assms(3)]
  have n: "numDisks h = length (disks h)" "0 < length (disks h)"
    using assms(1) by (auto simp: wf_array_def)
  have dk: "wf_disk (arrayBlockSize h) (blocksPerDisk h) (disks g ! j)" if j: "j < length (disks h)" for j
  proof (cases "j = d")
    case True
    then show ?thesis using assms(4) by simp
  next
    case False
    have "wf_disk (arrayBlockSize h) (blocksPerDisk h) (disks h ! j)"
      using assms(1) j by (simp add: wf_array_def list_all_length)
    then show ?thesis
      using uncounted_disk_eqD(1-3) [OF e(6) [OF j False]] by (simp add: wf_disk_def)
  qed
  show b: "blocksPerDisk g = blocksPerDisk h"
    using dk [OF n(2)] by (simp add: blocksPerDisk_def wf_disk_def)
  have "list_all (wf_disk (arrayBlockSize h) (blocksPerDisk h)) (disks g)"
    using dk e(5) by (simp add: list_all_length)
  then show "wf_array g"
    using assms(1) unfolding wf_array_def b e(1-5) by auto
qed

text \<open>
  One iteration of the rebuild, on an array \<open>g\<close> that differs in disk \<open>d\<close> from an array
  \<open>h\<close> on which the parity invariant holds: it writes to block \<open>s\<close> of disk \<open>d\<close> what \<open>h\<close>
  has there, whatever \<open>g\<close> has.
\<close>

lemma rebuild_step_restores:
  assumes "wf_array h" and "level h = RAID5" and "all_healthy h" and "parity_inv h"
    and "d < numDisks h" and "s < blocksPerDisk h"
    and "same_but_disk d g h" and "wf_disk (arrayBlockSize h) (blocksPerDisk h) (disks g ! d)"
    and "\<not> failed (disks g ! d)" and "uncounted a = uncounted g"
  shows "fst (rebuild_step a s d) = None"
    and "uncounted (snd (rebuild_step a s d)) = uncounted (put g d s (block_at h d s))"
proof -
  let ?N = "numDisks h" and ?p = "s mod numDisks h"
  let ?f = "\<lambda>j. block_at h j s" and ?fg = "\<lambda>j. block_at g j s"
  note w = wf_raid5 [OF assms(1,2)]
  note e = same_but_diskD [OF assms(7)]
  note wg = same_but_disk_wf [OF assms(1,5,7,8)]
  have N: "numDisks a = ?N" using uncounted_eqD(2) [OF assms(10)] e(2) by simp
  have Ng: "numDisks g = ?N" by (rule e(2))
  have bs: "arrayBlockSize a = arrayBlockSize h" using uncounted_eqD(4) [OF assms(10)] e(4) by simp
  have dg: "d < numDisks g" "s < blocksPerDisk g" using assms(5,6) Ng wg(2) by simp_all
  have hl: "\<And>j. j < ?N \<Longrightarrow> \<not> failed (disks h ! j)"
    using assms(3) w(3) by (simp add: all_healthy_iff)
  have same: "\<And>j. j < ?N \<Longrightarrow> j \<noteq> d \<Longrightarrow> block_at g j s = block_at h j s"
    using same_but_disk_others(2) [OF assms(7)] w(3) by simp
  have rd: "\<And>j. j < ?N \<Longrightarrow> j \<noteq> d \<Longrightarrow> readable g j s"
  proof -
    fix j assume j: "j < ?N" "j \<noteq> d"
    have "\<not> failed (disks g ! j)"
      using same_but_disk_others(1) [OF assms(7) _ j(2)] j(1) w(3) hl [OF j(1)] by simp
    then show "readable g j s" using wf_readable [OF wg(1) _ dg(2)] j(1) Ng by simp
  qed
  have z: "stripe_xor h s = zero_block (arrayBlockSize h)"
    using assms(4,6) by (simp add: parity_inv_iff)
  have p: "?p < ?N" using assms(5) by simp
  have wr: "writable g d s (block_at h d s)"
    using wf_writable [OF wg(1) dg assms(9)] length_block_at [OF assms(1,5,6)] e(4) by simp
  have "fst (rebuild_step a s d) = None \<and>
        uncounted (snd (rebuild_step a s d)) = uncounted (put g d s (block_at h d s))"
  proof (cases "d = ?p")
    case True
    let ?L = "rebuildParity_loop a s d (replicate (arrayBlockSize a) 0) [0..<numDisks a]"
    have "fst ?L = Inr (xor_fold ?fg (filter (\<lambda>i. i \<noteq> d) [0..<?N]) (zero_block (arrayBlockSize h)))"
      using rebuildParity_loop_value [OF assms(10), of "[0..<?N]" d s] rd
      by (simp add: N bs zero_block_def)
    also have "xor_fold ?fg (filter (\<lambda>i. i \<noteq> d) [0..<?N]) (zero_block (arrayBlockSize h)) =
               xor_fold ?f (filter (\<lambda>i. i \<noteq> d) [0..<?N]) (zero_block (arrayBlockSize h))"
      using same by (intro xor_fold_cong) simp
    also have "\<dots> = block_at h d s"
      using parity_is_xor_of_data [OF assms(1,6,5) z] by simp
    finally have L: "?L = (Inr (block_at h d s), snd ?L)" by (metis prod.collapse)
    have uL: "uncounted (snd ?L) = uncounted g" using assms(10) by simp
    have P: "rebuildParityBlock a s d = disks_WriteBlock (snd ?L) d s (block_at h d s)"
      unfolding rebuildParityBlock_def by (subst L) simp
    note wb = disks_WriteBlock_writable [OF uL wr]
    have "rebuildParityBlock a s d = (None, snd (rebuildParityBlock a s d))"
      using wb(1) unfolding P by (metis prod.collapse)
    then have "rebuild_step a s d = (None, snd (rebuildParityBlock a s d))"
      using True N unfolding rebuild_step_def by (metis (no_types, lifting) case_prod_conv option.simps(4))
    then show ?thesis using wb(2) unfolding P by simp
  next
    case False
    then have pd: "?p \<noteq> d" by simp
    let ?R = "reconstructBlock a s d ?p"
    have ng: "numDisks g = length (disks g)" using wg(1) by (simp add: wf_array_def)
    have "fst ?R = Inr (xor_fold ?fg (others ?N ?p d) (?fg ?p))"
      using reconstructBlock_value [OF assms(10) ng, of ?p s d] p rd pd Ng by simp
    also have "xor_fold ?fg (others ?N ?p d) (?fg ?p) = xor_fold ?f (others ?N ?p d) (?fg ?p)"
      using same by (intro xor_fold_cong) (simp add: others_def)
    also have "?fg ?p = ?f ?p" using same [OF p pd] .
    also have "xor_fold ?f (others ?N ?p d) (?f ?p) = block_at h d s"
      using reconstruct_is_missing [OF assms(1,6) p assms(5) pd z] .
    finally have Rv: "?R = (Inr (block_at h d s), snd ?R)" by (metis prod.collapse)
    have uR: "uncounted (snd ?R) = uncounted g" using assms(10) by simp
    note wb = disks_WriteBlock_writable [OF uR wr]
    let ?W = "disks_WriteBlock (snd ?R) d s (block_at h d s)"
    have Wv: "?W = (None, snd ?W)" using wb(1) by (metis prod.collapse)
    have "rebuild_data_block a s d ?p = (None, snd ?W)"
      unfolding rebuild_data_block_def by (subst Rv, simp, subst Wv, simp)
    then show ?thesis using False N wb(2) by (simp add: rebuild_step_def)
  qed
  then show "fst (rebuild_step a s d) = None"
    "uncounted (snd (rebuild_step a s d)) = uncounted (put g d s (block_at h d s))"
    by simp_all
qed

text \<open>
  The rebuild over a list of stripes: it succeeds, and leaves on disk \<open>d\<close> the blocks of
  \<open>h\<close> at the stripes of the list; the other blocks of the disk, and the other disks,
  are as they were.
\<close>

lemma rebuild_stripes_restores:
  assumes "wf_array h" and "level h = RAID5" and "all_healthy h" and "parity_inv h"
    and "d < numDisks h" and "\<forall>s\<in>set ss. s < blocksPerDisk h"
    and "same_but_disk d g h" and "wf_disk (arrayBlockSize h) (blocksPerDisk h) (disks g ! d)"
    and "\<not> failed (disks g ! d)" and "uncounted a = uncounted g"
  shows "\<exists>g'. fst (rebuild_stripes a d ss) = None \<and>
     uncounted (snd (rebuild_stripes a d ss)) = uncounted g' \<and>
     same_but_disk d g' h \<and> wf_disk (arrayBlockSize h) (blocksPerDisk h) (disks g' ! d) \<and>
     \<not> failed (disks g' ! d) \<and>
     (\<forall>s. block_at g' d s = (if s \<in> set ss then block_at h d s else block_at g d s))"
  using assms(6-10)
proof (induction ss arbitrary: a g)
  case Nil
  show ?case using Nil.prems by (intro exI [of _ g]) simp
next
  case (Cons s ss)
  have s: "s < blocksPerDisk h" and rest: "\<forall>s\<in>set ss. s < blocksPerDisk h"
    using Cons.prems(1) by simp_all
  let ?g1 = "put g d s (block_at h d s)"
  note st = rebuild_step_restores [OF assms(1-5) s Cons.prems(2-5)]
  note e = same_but_diskD [OF Cons.prems(2)]
  note wg = same_but_disk_wf [OF assms(1,5) Cons.prems(2,3)]
  have dg: "d < numDisks g" "s < blocksPerDisk g" using assms(5) s e(2) wg(2) by simp_all
  have len: "length (block_at h d s) = arrayBlockSize g"
    using length_block_at [OF assms(1,5) s] e(4) by simp
  note wp = wf_array_put [OF wg(1) dg len]
  have dl: "d < length (disks g)" using wf_disk_nth(4) [OF wg(1) dg(1)] .
  have g1: "same_but_disk d ?g1 h"
    unfolding put_def by (rule same_but_disk_update [OF Cons.prems(2)])
  have g2: "wf_disk (arrayBlockSize h) (blocksPerDisk h) (disks ?g1 ! d)"
    using wf_disk_nth(1-3) [OF wp(1), of d] dg(1) wp(2) wg(2) e(4) by (simp add: wf_disk_def)
  have g3: "\<not> failed (disks ?g1 ! d)" using Cons.prems(4) by simp
  have bl: "block_at ?g1 d s' = (if s' = s then block_at h d s else block_at g d s')" for s'
    using block_at_put [OF dl, of "block_at h d s" s d s'] len
      wf_disk_nth(1) [OF wg(1) dg(1)] wf_block_within [OF wg(1) dg] by simp
  have d: "d < numDisks a" using dg(1) uncounted_eqD(2) [OF Cons.prems(5)] by simp
  have "rebuild_step a s d = (None, snd (rebuild_step a s d))"
    using st(1) by (metis prod.collapse)
  then have R: "rebuild_stripes a d (s # ss) = rebuild_stripes (snd (rebuild_step a s d)) d ss"
    using rebuild_stripes_step [OF d, of s ss]
    by (metis (no_types, lifting) case_prod_conv option.simps(4))
  from Cons.IH [OF rest g1 g2 g3 st(2)] obtain g' where g':
    "fst (rebuild_stripes (snd (rebuild_step a s d)) d ss) = None"
    "uncounted (snd (rebuild_stripes (snd (rebuild_step a s d)) d ss)) = uncounted g'"
    "same_but_disk d g' h" "wf_disk (arrayBlockSize h) (blocksPerDisk h) (disks g' ! d)"
    "\<not> failed (disks g' ! d)"
    "\<forall>s'. block_at g' d s' = (if s' \<in> set ss then block_at h d s' else block_at ?g1 d s')"
    by blast
  have "\<forall>s'. block_at g' d s' = (if s' \<in> set (s # ss) then block_at h d s' else block_at g d s')"
    using g'(6) bl by simp
  with g'(1-5) show ?case unfolding R by (intro exI [of _ g']) simp
qed

text \<open>
  C3. Take a level-5 array \<open>a0\<close> with all disks healthy on which the parity invariant
  holds. Let disk \<open>d\<close> fail, and let nothing be written while it is failed: the array
  \<open>a\<close> has the other disks as \<open>a0\<close> has them (counters apart); its disk \<open>d\<close> is marked
  failed and has the sizes of the array, and holds anything at all, what it held
  before or not (a medium that was lost and replaced). Then \<open>RebuildDisk d\<close> returns
  success, and in the array \<open>r\<close> it leaves: disk \<open>d\<close> is not marked failed; every
  physical block of \<open>d\<close> is what the engine reconstructs from the surviving disks (at a
  stripe whose parity is on \<open>d\<close>, the XOR of the other members; elsewhere, the parity
  XOR the surviving data), which is the block that \<open>d\<close> held before the failure; the
  other disks are untouched; the array is well formed and healthy; the parity
  invariant holds on every stripe; and every logical block reads back as it did before
  the failure.
\<close>

theorem rebuild_restores_disk:
  assumes "wf_array a0" and "level a0 = RAID5" and "all_healthy a0" and "parity_inv a0"
    and "d < numDisks a0" and "same_but_disk d a a0" and "failed (disks a ! d)"
    and "wf_disk (arrayBlockSize a0) (blocksPerDisk a0) (disks a ! d)"
  shows "fst (RebuildDisk a (int d)) = None \<and>
     \<not> failed (disks (snd (RebuildDisk a (int d))) ! d) \<and>
     (\<forall>s<blocksPerDisk a0.
        block_at (snd (RebuildDisk a (int d))) d s =
          (if d = s mod numDisks a0
           then xor_fold (\<lambda>i. block_at a i s) (filter (\<lambda>i. i \<noteq> d) [0..<numDisks a0])
                  (zero_block (arrayBlockSize a0))
           else xor_fold (\<lambda>i. block_at a i s) (others (numDisks a0) (s mod numDisks a0) d)
                  (block_at a (s mod numDisks a0) s))) \<and>
     (\<forall>s<blocksPerDisk a0. block_at (snd (RebuildDisk a (int d))) d s = block_at a0 d s) \<and>
     same_but_disk d (snd (RebuildDisk a (int d))) a0 \<and>
     wf_array (snd (RebuildDisk a (int d))) \<and>
     all_healthy (snd (RebuildDisk a (int d))) \<and>
     parity_inv (snd (RebuildDisk a (int d))) \<and>
     (\<forall>lbid. 0 \<le> lbid \<and> lbid < int (capacity a0) \<longrightarrow>
        fst (ReadBlock (snd (RebuildDisk a (int d))) lbid) = fst (ReadBlock a0 lbid))"
proof -
  let ?N = "numDisks a0" and ?r = "snd (RebuildDisk a (int d))"
  let ?a1 = "disks_SetFailed a d False"
  note w = wf_raid5 [OF assms(1,2)]
  note e = same_but_diskD [OF assms(6)]
  have dl: "d < length (disks a0)" using assms(5) w(3) by simp
  have la: "d < length (disks a)" using dl e(5) by simp
  have hl: "\<And>j. j < ?N \<Longrightarrow> \<not> failed (disks a0 ! j)"
    using assms(3) w(3) by (simp add: all_healthy_iff)
  have d1: "disks ?a1 ! d = (disks a ! d)\<lparr>failed := False\<rparr>"
    using la by (simp add: disks_SetFailed_def SetFailed_def)
  have E1: "same_but_disk d ?a1 a0"
    unfolding disks_SetFailed_def by (rule same_but_disk_update [OF assms(6)])
  have W1: "wf_disk (arrayBlockSize a0) (blocksPerDisk a0) (disks ?a1 ! d)"
    using assms(8) unfolding d1 by (simp add: wf_disk_def)
  have F1: "\<not> failed (disks ?a1 ! d)" unfolding d1 by simp
  have nb: "numBlocks (disks ?a1 ! d) = blocksPerDisk a0" using W1 by (simp add: wf_disk_def)
  have R: "RebuildDisk a (int d) = rebuild_stripes ?a1 d [0..<blocksPerDisk a0]"
    using assms(7,5,2) e(1,2) nb
    by (simp add: RebuildDisk_def raid5_rebuildDisk_def IsFailed_def Capacity_disk_def Let_def)
  have "\<forall>s\<in>set [0..<blocksPerDisk a0]. s < blocksPerDisk a0" by simp
  from rebuild_stripes_restores [OF assms(1-5) this E1 W1 F1 refl] obtain g' where g':
    "fst (rebuild_stripes ?a1 d [0..<blocksPerDisk a0]) = None"
    "uncounted (snd (rebuild_stripes ?a1 d [0..<blocksPerDisk a0])) = uncounted g'"
    "same_but_disk d g' a0" "wf_disk (arrayBlockSize a0) (blocksPerDisk a0) (disks g' ! d)"
    "\<not> failed (disks g' ! d)"
    "\<forall>s. block_at g' d s = (if s \<in> set [0..<blocksPerDisk a0] then block_at a0 d s else block_at ?a1 d s)"
    by blast
  have ok: "fst (RebuildDisk a (int d)) = None" unfolding R by (rule g'(1))
  have ur: "uncounted ?r = uncounted g'" unfolding R by (rule g'(2))
  note eg = same_but_diskD [OF g'(3)]
  note wg = same_but_disk_wf [OF assms(1,5) g'(3,4)]
  have lg: "length (disks g') = ?N" using eg(5) w(3) by simp
  have ng: "numDisks g' = length (disks g')" using eg(2) lg by simp
  have wr: "wf_array ?r" using wf_array_uncounted [OF ur] wg(1) by simp
  have nf: "\<not> failed (disks ?r ! d)"
    using uncounted_view(1) [OF ur, of d] g'(5) lg assms(5) by simp
  have gb: "block_at g' i s = block_at a0 i s" if "i < ?N" "s < blocksPerDisk a0" for i s
  proof (cases "i = d")
    case True
    then show ?thesis using g'(6) that(2) by simp
  next
    case False
    then show ?thesis using same_but_disk_others(2) [OF g'(3) _ False] that(1) w(3) by simp
  qed
  have rb: "block_at ?r i s = block_at a0 i s" if "i < ?N" "s < blocksPerDisk a0" for i s
    using uncounted_view(5) [OF ur, of i s] gb [OF that] that(1) lg by simp
  have restored: "block_at ?r d s = block_at a0 d s" if "s < blocksPerDisk a0" for s
    using rb [OF assms(5) that] .
  have blocks: "block_at ?r d s =
          (if d = s mod ?N
           then xor_fold (\<lambda>i. block_at a i s) (filter (\<lambda>i. i \<noteq> d) [0..<?N]) (zero_block (arrayBlockSize a0))
           else xor_fold (\<lambda>i. block_at a i s) (others ?N (s mod ?N) d) (block_at a (s mod ?N) s))"
    if s: "s < blocksPerDisk a0" for s
  proof -
    have z: "stripe_xor a0 s = zero_block (arrayBlockSize a0)"
      using assms(4) s by (simp add: parity_inv_iff)
    have p: "s mod ?N < ?N" using assms(5) by simp
    have same: "\<And>i. i < ?N \<Longrightarrow> i \<noteq> d \<Longrightarrow> block_at a i s = block_at a0 i s"
      using same_but_disk_others(2) [OF assms(6)] w(3) by simp
    have c1: "xor_fold (\<lambda>i. block_at a i s) (filter (\<lambda>i. i \<noteq> d) [0..<?N]) acc =
              xor_fold (\<lambda>i. block_at a0 i s) (filter (\<lambda>i. i \<noteq> d) [0..<?N]) acc" for acc
      using same by (intro xor_fold_cong) simp
    have c2: "xor_fold (\<lambda>i. block_at a i s) (others ?N (s mod ?N) d) acc =
              xor_fold (\<lambda>i. block_at a0 i s) (others ?N (s mod ?N) d) acc" for acc
      using same by (intro xor_fold_cong) (simp add: others_def)
    show ?thesis
    proof (cases "d = s mod ?N")
      case True
      show ?thesis
        unfolding if_P [OF True] c1 restored [OF s]
        by (rule parity_is_xor_of_data [OF assms(1) s assms(5) z])
    next
      case False
      then have ne: "s mod ?N \<noteq> d" by simp
      show ?thesis
        unfolding if_not_P [OF False] c2 same [OF p ne] restored [OF s]
        by (rule reconstruct_is_missing [OF assms(1) s p assms(5) ne z, symmetric])
    qed
  qed
  have sb: "same_but_disk d ?r a0" using same_but_disk_uncounted [OF ur g'(3) dl] .
  have hg: "\<not> failed (disks g' ! i)" if "i < ?N" for i
  proof (cases "i = d")
    case True
    then show ?thesis using g'(5) by simp
  next
    case False
    then show ?thesis
      using same_but_disk_others(1) [OF g'(3) _ False] that w(3) hl [OF that] by simp
  qed
  have "all_healthy g'" using hg lg by (simp add: all_healthy_iff)
  then have ah: "all_healthy ?r" using all_healthy_uncounted [OF ur] by simp
  have br: "blocksPerDisk ?r = blocksPerDisk a0"
    using blocksPerDisk_uncounted [OF ur] lg assms(5) wg(2) by simp
  have fr: "numDisks ?r = ?N" "arrayBlockSize ?r = arrayBlockSize a0" "level ?r = level a0"
    "capacity ?r = capacity a0"
    using uncounted_eqD(1-4) [OF ur] eg(1-4) by simp_all
  have pi: "parity_inv ?r"
    unfolding parity_inv_iff br
  proof (intro allI impI)
    fix s assume s: "s < blocksPerDisk a0"
    have "stripe_xor ?r s = stripe_xor a0 s"
      unfolding stripe_xor_def fr using rb s by (intro xor_fold_cong) simp
    then show "stripe_xor ?r s = zero_block (arrayBlockSize ?r)"
      using assms(4) s fr(2) by (simp add: parity_inv_iff)
  qed
  have reads: "fst (ReadBlock ?r lbid) = fst (ReadBlock a0 lbid)"
    if l: "0 \<le> lbid \<and> lbid < int (capacity a0)" for lbid
  proof -
    have c: "nat lbid < capacity a0" using l by linarith
    note b = raid5_layout_wf [OF assms(1,2) c]
    have rd: "readable a0 (data_disk_of ?N (nat lbid)) (stripe_of ?N (nat lbid))"
      using wf_readable [OF assms(1) b(4) b(1) hl [OF b(4)]] .
    have rg: "readable g' (data_disk_of (numDisks g') (nat lbid)) (stripe_of (numDisks g') (nat lbid))"
      using wf_readable [OF wg(1), of "data_disk_of ?N (nat lbid)" "stripe_of ?N (nat lbid)"]
        b(1,4) hg [OF b(4)] eg(2) wg(2) by simp
    have "fst (raid5_readBlock ?r (nat lbid)) =
          Inr (block_at g' (data_disk_of ?N (nat lbid)) (stripe_of ?N (nat lbid)))"
      using raid5_readBlock_direct [OF ur ng rg] eg(2) by simp
    also have "\<dots> = fst (raid5_readBlock a0 (nat lbid))"
      using raid5_readBlock_direct [OF refl w(3) rd] gb [OF b(4) b(1)] by simp
    finally show ?thesis
      using l assms(2) fr(3,4) by (simp add: ReadBlock_def)
  qed
  from ok nf blocks restored sb wr ah pi reads show ?thesis by blast
qed

theorem rebuild_restores_disk_witness:
  "map fileData (disks (run parity3 [Write [] 1 [7], Write [] 0 [3], Write [] 3 [9]])) = [[4, 0], [3, 9], [7, 9]] \<and>
   map fileData (disks replaced0) = [[200, 201], [3, 9], [7, 9]] \<and>
   fst (RebuildDisk replaced0 0) = None \<and>
   \<not> failed (disks (snd (RebuildDisk replaced0 0)) ! 0) \<and>
   parity_inv (snd (RebuildDisk replaced0 0)) \<and>
   map fileData (disks (snd (RebuildDisk replaced0 0))) = [[4, 0], [3, 9], [7, 9]] \<and>
   map fileData (disks replaced2) = [[4, 0], [3, 9], [200, 201]] \<and>
   fst (RebuildDisk replaced2 2) = None \<and>
   \<not> failed (disks (snd (RebuildDisk replaced2 2)) ! 2) \<and>
   parity_inv (snd (RebuildDisk replaced2 2)) \<and>
   map fileData (disks (snd (RebuildDisk replaced2 2))) = [[4, 0], [3, 9], [7, 9]]"
proof -
  let ?a0 = "run parity3 [Write [] 1 [7], Write [] 0 [3], Write [] 3 [9]]"
  have h: "wf_array ?a0" "level ?a0 = RAID5" "all_healthy ?a0" "parity_inv ?a0"
    by code_simp+
  have h0: "0 < numDisks ?a0" "same_but_disk 0 replaced0 ?a0" "failed (disks replaced0 ! 0)"
    "wf_disk (arrayBlockSize ?a0) (blocksPerDisk ?a0) (disks replaced0 ! 0)"
    by code_simp+
  have h2: "2 < numDisks ?a0" "same_but_disk 2 replaced2 ?a0" "failed (disks replaced2 ! 2)"
    "wf_disk (arrayBlockSize ?a0) (blocksPerDisk ?a0) (disks replaced2 ! 2)"
    by code_simp+
  have f: "map fileData (disks ?a0) = [[4, 0], [3, 9], [7, 9]]"
    "map fileData (disks replaced0) = [[200, 201], [3, 9], [7, 9]]"
    "map fileData (disks (snd (RebuildDisk replaced0 0))) = [[4, 0], [3, 9], [7, 9]]"
    "map fileData (disks replaced2) = [[4, 0], [3, 9], [200, 201]]"
    "map fileData (disks (snd (RebuildDisk replaced2 2))) = [[4, 0], [3, 9], [7, 9]]"
    by code_simp+
  from rebuild_restores_disk [OF h h0] rebuild_restores_disk [OF h h2] f show ?thesis by simp
qed

subsection \<open>What the constructor establishes\<close>

text \<open>
  Every array that \<open>NewRAIDArray\<close> returns, for sizes whose products do not wrap
  around, is well formed and healthy, and its disks have the paths of the
  configuration, all different; over disk files that hold only zeros (in particular
  over files that do not exist yet) it is zero-filled. These are the hypotheses of the
  theorems above.
\<close>

lemma mul_int_small:
  assumes "0 \<le> x * y" and "x * y < 2 ^ 63"
  shows "mul_int x y = x * y"
proof -
  have "mul_int x y = sint (word_of_int (x * y) :: 64 word)" by (simp add: mul_int_def)
  also have "\<dots> = signed_take_bit 63 (x * y)" unfolding sint_sbintrunc' by simp
  also have "\<dots> = x * y" using assms by (intro signed_take_bit_int_eq_self) simp_all
  finally show ?thesis .
qed

lemma NewDisk_wf:
  assumes "NewDisk existing p bs nb = Inr d" and "bs * nb < 2 ^ 63"
  shows "wf_disk (nat bs) (nat nb) d" "\<not> failed d" "path d = p"
    "list_all (\<lambda>x. x = 0) existing \<Longrightarrow> list_all (\<lambda>x. x = 0) (fileData d)"
proof -
  have pos: "0 < bs" "0 < nb" using assms(1) by (auto simp: NewDisk_def split: if_splits)
  have m: "nat (bs * nb) = nat bs * nat nb" using pos by (simp add: nat_mult_distrib)
  have r: "mul_int bs nb = bs * nb" using pos assms(2) by (intro mul_int_small) simp_all
  have d: "d = \<lparr> fileData = (if int (length existing) < bs * nb
                       then existing @ replicate (nat (bs * nb) - length existing) 0
                       else existing),
              path = p, blockSize = nat bs, numBlocks = nat nb, failed = False,
              writeCount = 0, readCount = 0 \<rparr>"
    using assms(1) pos by (simp add: NewDisk_def Let_def r)
  have "nat bs * nat nb \<le> length (fileData d)"
  proof (cases "int (length existing) < bs * nb")
    case True
    then show ?thesis unfolding d using m by simp
  next
    case False
    then have "nat (bs * nb) \<le> length existing" by linarith
    then show ?thesis unfolding d using False m by simp
  qed
  then show "wf_disk (nat bs) (nat nb) d" unfolding wf_disk_def by (simp add: d)
  show "\<not> failed d" unfolding d by simp
  show "path d = p" unfolding d by simp
  show "list_all (\<lambda>x. x = 0) (fileData d)" if "list_all (\<lambda>x. x = 0) existing"
    unfolding d using that by (simp add: list_all_iff)
qed

lemma open_disks_wf:
  assumes "open_disks fs i ps bs nb = Inr ds" and "bs * nb < 2 ^ 63"
  shows "length ds = length ps \<and> list_all (wf_disk (nat bs) (nat nb)) ds \<and>
         list_all (\<lambda>d. \<not> failed d) ds \<and> map path ds = ps \<and>
         ((\<forall>p\<in>set ps. list_all (\<lambda>x. x = 0) (fs p)) \<longrightarrow>
            list_all (\<lambda>d. list_all (\<lambda>x. x = 0) (fileData d)) ds)"
  using assms(1)
proof (induction ps arbitrary: i ds)
  case Nil
  then show ?case by simp
next
  case (Cons p ps)
  from Cons.prems obtain d ds' where d: "NewDisk (fs p) p bs nb = Inr d"
    and r: "open_disks fs (i + 1) ps bs nb = Inr ds'" and ds: "ds = d # ds'"
    by (auto split: sum.splits)
  show ?case
    unfolding ds using Cons.IH [OF r] NewDisk_wf [OF d assms(2)] by simp
qed

lemma NewRAIDArray_wf:
  assumes "NewRAIDArray fs config = Some (Inr a)"
    and "BlockSize config * BlocksPerDisk config < 2 ^ 63"
    and "BlocksPerDisk config * int (length (DiskPaths config)) < 2 ^ 63"
  shows "wf_array a" and "all_healthy a"
    and "map path (disks a) = DiskPaths config" and "distinct (map path (disks a))"
    and "(\<forall>p\<in>set (DiskPaths config). list_all (\<lambda>x. x = 0) (fs p)) \<Longrightarrow> zero_filled a"
proof -
  let ?ps = "DiskPaths config" and ?bs = "BlockSize config" and ?nb = "BlocksPerDisk config"
  have c: "2 \<le> length ?ps" "Level config = RAID5 \<longrightarrow> 3 \<le> length ?ps" "0 < ?bs" "0 < ?nb"
    and dp: "distinct ?ps"
    using assms(1) by (auto simp: NewRAIDArray_def split: if_splits sum.splits)
  obtain ds where o: "open_disks fs 0 ?ps ?bs ?nb = Inr ds"
    using assms(1) c by (auto simp: NewRAIDArray_def split: if_splits sum.splits)
  note w = open_disks_wf [OF o assms(2)]
  have l: "length ds = length ?ps" using w by simp
  have m0: "mul_int ?nb (int (length ds)) = ?nb * int (length ds)"
    using c(4) assms(3) l by (intro mul_int_small) simp_all
  have le: "?nb * (int (length ds) - 1) \<le> ?nb * int (length ds)"
    using c(4) by (intro mult_left_mono) simp_all
  have "0 \<le> int (length ds) - 1" using c(1) l by auto
  then have ge: "0 \<le> ?nb * (int (length ds) - 1)"
    using c(4) by (intro mult_nonneg_nonneg) simp_all
  have "?nb * (int (length ds) - 1) < 2 ^ 63" using le assms(3) l by simp
  with ge have m5: "mul_int ?nb (int (length ds) - 1) = ?nb * (int (length ds) - 1)"
    by (rule mul_int_small)
  have n0: "nat (?nb * int (length ds)) = nat ?nb * length ds"
    using c(4) by (simp add: nat_mult_distrib)
  have n5: "nat (?nb * (int (length ds) - 1)) = nat ?nb * (length ds - 1)"
    using c(1,4) l by (simp add: nat_mult_distrib nat_diff_distrib)
  have a: "disks a = ds" "numDisks a = length ds" "arrayBlockSize a = nat ?bs" "level a = Level config"
    "level a = RAID0 \<and> capacity a = nat ?nb * length ds \<or>
     level a = RAID1 \<and> capacity a = nat ?nb \<or>
     level a = RAID5 \<and> capacity a = nat ?nb * (length ds - 1)"
    using assms(1) c o dp
    by (auto simp: NewRAIDArray_def Let_def m0 m5 n0 n5 split: if_splits)
  have "0 < length ds" using l c(1) by auto
  moreover have "\<forall>n<length ds. wf_disk (nat ?bs) (nat ?nb) (ds ! n)"
    using w by (simp add: list_all_length)
  ultimately have "wf_disk (nat ?bs) (nat ?nb) (ds ! 0)" by blast
  then have nb: "blocksPerDisk a = nat ?nb" by (simp add: blocksPerDisk_def a(1) wf_disk_def)
  show "wf_array a"
    unfolding wf_array_def nb using a w l c by auto
  show "all_healthy a" using w by (simp add: all_healthy_def a(1))
  show p: "map path (disks a) = DiskPaths config" using w by (simp add: a(1))
  show "distinct (map path (disks a))" unfolding p by (rule dp)
  show "zero_filled a" if "\<forall>p\<in>set ?ps. list_all (\<lambda>x. x = 0) (fs p)"
    using w that by (simp add: zero_filled_def a(1))
qed

text \<open>
  Where the product of the sizes wraps around, the file is not extended and the disk
  is not well formed: every read of it fails. Where a path is named twice,
  \<open>NewRAIDArray\<close> has no value.
\<close>

lemma mul_int_wraps: "mul_int 16 (2 ^ 60) = 0"
  by (simp add: mul_int_def)

lemma NewDisk_wrapped_size:
  "NewDisk [] ''d0'' 16 (2 ^ 60) =
     Inr \<lparr> fileData = [], path = ''d0'', blockSize = 16, numBlocks = 2 ^ 60, failed = False,
           writeCount = 0, readCount = 0 \<rparr> \<and>
   fst (Disk_ReadBlock \<lparr> fileData = [], path = ''d0'', blockSize = 16, numBlocks = 2 ^ 60,
           failed = False, writeCount = 0, readCount = 0 \<rparr> 0) = Inl (ReadError 0)"
  using mul_int_wraps by (simp add: NewDisk_def Disk_ReadBlock_def ReadAt_def Let_def)

lemma NewRAIDArray_shared_path:
  "NewRAIDArray (\<lambda>p. []) \<lparr> Level = RAID1, DiskPaths = [''d0'', ''d0''], BlockSize = 1,
      BlocksPerDisk = 2 \<rparr> = None"
  by code_simp

text \<open>Reads and writes keep an array well formed.\<close>

lemma wf_array_WriteBlock:
  assumes "wf_array a"
  shows "wf_array (snd (WriteBlock a sched lbid dat))"
proof (cases "lbid < 0 \<or> lbid \<ge> int (capacity a) \<or> length dat \<noteq> arrayBlockSize a")
  case True
  then have "snd (WriteBlock a sched lbid dat) = a" by (auto simp: WriteBlock_def)
  then show ?thesis using assms by simp
next
  case False
  then have c: "nat lbid < capacity a" and len: "length dat = arrayBlockSize a" by auto
  consider (r0) "level a = RAID0" | (r1) "level a = RAID1" | (r5) "level a = RAID5"
    using assms by (auto simp: wf_array_def)
  then show ?thesis
  proof cases
    case r0
    let ?i = "nat lbid mod numDisks a" and ?b = "nat lbid div numDisks a"
    have N: "2 \<le> numDisks a" and cap: "capacity a = blocksPerDisk a * numDisks a"
      using assms r0 by (auto simp: wf_array_def)
    have b: "?b < blocksPerDisk a" using c cap N by (simp add: less_mult_imp_div_less)
    have i: "?i < numDisks a" using N by simp
    have W: "WriteBlock a sched lbid dat = disks_WriteBlock a ?i ?b dat"
      using False r0 by (simp add: WriteBlock_def raid0_writeBlock_def Let_def)
    show ?thesis
    proof (cases rule: disks_WriteBlock_cases [of a ?i ?b dat])
      case (ok a')
      then have "writable a ?i ?b dat" using wf_disk_nth(4) [OF assms i] by simp
      from disks_WriteBlock_writable(2) [OF refl this] show ?thesis
        unfolding W using wf_array_put(1) [OF assms i b len] wf_array_uncounted by blast
    next
      case (err e)
      then show ?thesis unfolding W using assms by simp
    qed
  next
    case r1
    then have W: "snd (WriteBlock a sched lbid dat) = raid1_written a (nat lbid) dat"
      using False by (simp add: WriteBlock_def raid1_writeBlock_state)
    show ?thesis unfolding W by (rule raid1_written_view(1) [OF assms refl])
  next
    case r5
    then have W: "WriteBlock a sched lbid dat = raid5_writeBlock a (nat lbid) dat"
      using False by (simp add: WriteBlock_def)
    show ?thesis
    proof (cases "failed (disks a ! data_disk_of (numDisks a) (nat lbid))")
      case True
      from raid5_writeBlock_data_failed(2) [OF assms r5 c len True] show ?thesis
        unfolding W using parity_written_wf(1) [OF assms r5 c len] wf_array_uncounted by blast
    next
      case nf: False
      from raid5_writeBlock_ok(2) [OF assms r5 c len nf] show ?thesis
        unfolding W using raid5_written_wf(1) [OF assms r5 c len] wf_array_uncounted by blast
    qed
  qed
qed

lemma wf_array_run: "wf_array a \<Longrightarrow> wf_array (run a ops)"
proof (induction ops arbitrary: a)
  case Nil
  then show ?case by simp
next
  case (Cons x ops)
  have "wf_array (apply_op a x)"
  proof (cases x)
    case (Write sched lbid dat)
    then show ?thesis using wf_array_WriteBlock [OF Cons.prems] by simp
  next
    case (Read lbid)
    have "uncounted (snd (ReadBlock a lbid)) = uncounted a" by simp
    from wf_array_uncounted [OF this] show ?thesis using Read Cons.prems by simp
  qed
  then show ?case using Cons.IH by simp
qed

end
